theory Spec2Isabelle
  imports Main "HOL-Library.Sublist"
begin

section \<open>Text\<close>

text \<open>
  Python strings are modelled as \<^typ>\<open>string\<close>, a list of 8-bit characters. The character
  classes below are Python's on ASCII text (\<^verbatim>\<open>str.isspace\<close>, and the classes
  \<^verbatim>\<open>\s\<close>, \<^verbatim>\<open>\d\<close>, \<^verbatim>\<open>\w\<close> of the module \<^verbatim>\<open>re\<close>); the model and the program agree on
  ASCII documents.
\<close>

definition isspace :: "char \<Rightarrow> bool" where
  "isspace c = (c \<in> set [CHR 0x09, CHR 0x0A, CHR 0x0B, CHR 0x0C, CHR 0x0D,
                           CHR 0x1C, CHR 0x1D, CHR 0x1E, CHR 0x1F, CHR 0x20])"

definition isdigit :: "char \<Rightarrow> bool" where
  "isdigit c = (c \<in> set ''0123456789'')"

definition isword :: "char \<Rightarrow> bool" where
  "isword c = (c \<in> set ''abcdefghijklmnopqrstuvwxyzABCDEFGHIJKLMNOPQRSTUVWXYZ0123456789_'')"

text \<open>\<^verbatim>\<open>str.lstrip()\<close>, \<^verbatim>\<open>str.rstrip()\<close>, \<^verbatim>\<open>str.strip()\<close>.\<close>

definition lstrip :: "string \<Rightarrow> string" where
  "lstrip s = dropWhile isspace s"

definition rstrip :: "string \<Rightarrow> string" where
  "rstrip s = rev (dropWhile isspace (rev s))"

definition strip :: "string \<Rightarrow> string" where
  "strip s = lstrip (rstrip s)"

text \<open>\<^verbatim>\<open>s.split(sep)\<close> for a one-character separator: never the empty list.\<close>

fun split_on :: "char \<Rightarrow> string \<Rightarrow> string list" where
  "split_on sep [] = [[]]"
| "split_on sep (c # cs) =
     (if c = sep then [] # split_on sep cs
      else (case split_on sep cs of [] \<Rightarrow> [[c]] | l # ls \<Rightarrow> (c # l) # ls))"

text \<open>\<^verbatim>\<open>sep.join(xs)\<close>.\<close>

fun join :: "string \<Rightarrow> string list \<Rightarrow> string" where
  "join sep [] = []"
| "join sep [x] = x"
| "join sep (x # y # ys) = x @ sep @ join sep (y # ys)"

text \<open>\<^verbatim>\<open>sub in s\<close>.\<close>

fun contains :: "string \<Rightarrow> string \<Rightarrow> bool" where
  "contains sub [] = (sub = [])"
| "contains sub (c # cs) = (prefix sub (c # cs) \<or> contains sub cs)"

text \<open>\<^verbatim>\<open>str(n)\<close> and \<^verbatim>\<open>int(s)\<close> on a string of decimal digits.\<close>

definition digit_char :: "nat \<Rightarrow> char" where
  "digit_char d = ''0123456789'' ! d"

definition digit_val :: "char \<Rightarrow> nat" where
  "digit_val c = length (takeWhile (\<lambda>d. d \<noteq> c) ''0123456789'')"

function str_nat :: "nat \<Rightarrow> string" where
  "str_nat n = (if n < 10 then [digit_char n] else str_nat (n div 10) @ [digit_char (n mod 10)])"
  by pat_completeness auto
termination
  by (relation "measure (\<lambda>n. n)") auto

definition str_int :: "int \<Rightarrow> string" where
  "str_int i = (if i < 0 then ''-'' @ str_nat (nat (- i)) else str_nat (nat i))"

definition int_of_digits :: "string \<Rightarrow> int" where
  "int_of_digits ds = int (foldl (\<lambda>a c. 10 * a + digit_val c) 0 ds)"

text \<open>
  \<^verbatim>\<open>re.search\<close>: the pattern is tried at every position from the left, the end of the text
  included, and the leftmost position where it matches wins. The argument is the pattern
  anchored at the start of its input.
\<close>

fun re_search :: "(string \<Rightarrow> 'a option) \<Rightarrow> string \<Rightarrow> 'a option" where
  "re_search m [] = m []"
| "re_search m (c # cs) = (case m (c # cs) of Some r \<Rightarrow> Some r | None \<Rightarrow> re_search m cs)"

text \<open>
  The pattern \<^verbatim>\<open>[C]*\n\<close> followed by the rest \<open>k\<close> of a pattern, for a character
  class \<open>C\<close> (\<^verbatim>\<open>\s*\n\<close> when \<open>C\<close> is \<^const>\<open>isspace\<close>). The star is greedy: it first
  takes the character, and gives it back to \<^verbatim>\<open>\n\<close> only when the rest fails after it.
\<close>

fun star_nl :: "(char \<Rightarrow> bool) \<Rightarrow> (string \<Rightarrow> 'a option) \<Rightarrow> string \<Rightarrow> 'a option" where
  "star_nl C k [] = None"
| "star_nl C k (c # cs) =
     (if C c then
        (case star_nl C k cs of
           Some r \<Rightarrow> Some r
         | None \<Rightarrow> if c = CHR 0x0A then k cs else None)
      else if c = CHR 0x0A then k cs else None)"

text \<open>
  The first line of a text when it is ended by a newline, and the text after that newline.
\<close>

definition break_line :: "string \<Rightarrow> (string \<times> string) option" where
  "break_line s =
     (if CHR 0x0A \<in> set s
      then Some (takeWhile (\<lambda>c. c \<noteq> CHR 0x0A) s, tl (dropWhile (\<lambda>c. c \<noteq> CHR 0x0A) s))
      else None)"

lemma break_line_shorter: "break_line s = Some (l, r) \<Longrightarrow> length r < length s"
proof -
  assume a: "break_line s = Some (l, r)"
  then have m: "CHR 0x0A \<in> set s" and r: "r = tl (dropWhile (\<lambda>c. c \<noteq> CHR 0x0A) s)"
    by (auto simp: break_line_def split: if_splits)
  from m have ne: "dropWhile (\<lambda>c. c \<noteq> CHR 0x0A) s \<noteq> []" by simp
  have "length (dropWhile (\<lambda>c. c \<noteq> CHR 0x0A) s) \<le> length s" by (rule length_dropWhile_le)
  with ne r show ?thesis by (cases "dropWhile (\<lambda>c. c \<noteq> CHR 0x0A) s") auto
qed

text \<open>
  A greedy group \<^verbatim>\<open>(?:L\n)+\<close> or \<^verbatim>\<open>(?:L\n)*\<close> where \<open>L\<close> matches within one line and up
  to its end: the text of the longest run of newline-terminated lines that satisfy \<open>P\<close>.
\<close>

function lines_while :: "(string \<Rightarrow> bool) \<Rightarrow> string \<Rightarrow> string" where
  "lines_while P s =
     (case break_line s of
        None \<Rightarrow> []
      | Some (l, r) \<Rightarrow> if P l then l @ [CHR 0x0A] @ lines_while P r else [])"
  by pat_completeness auto
termination
  by (relation "measure (\<lambda>(P, s). length s)") (auto simp: break_line_shorter)

text \<open>
  The lazy group \<^verbatim>\<open>([\s\S]*?)(?=\n## |\Z)\<close>: the shortest text after which the input reads
  a newline and \<^verbatim>\<open>## \<close>, or ends.
\<close>

fun until_section :: "string \<Rightarrow> string" where
  "until_section [] = []"
| "until_section (c # cs) =
     (if prefix ''\<newline>## '' (c # cs) then [] else c # until_section cs)"

fun first_some :: "('a \<Rightarrow> 'b option) \<Rightarrow> 'a list \<Rightarrow> 'b option" where
  "first_some f [] = None"
| "first_some f (x # xs) = (case f x of Some y \<Rightarrow> Some y | None \<Rightarrow> first_some f xs)"

text \<open>ASCII case mapping (\<^verbatim>\<open>re.IGNORECASE\<close>, \<^verbatim>\<open>str.title\<close>).\<close>

definition lower :: "char \<Rightarrow> char" where
  "lower c =
     (case map_of (zip ''ABCDEFGHIJKLMNOPQRSTUVWXYZ'' ''abcdefghijklmnopqrstuvwxyz'') c of
        None \<Rightarrow> c | Some l \<Rightarrow> l)"

definition upper :: "char \<Rightarrow> char" where
  "upper c =
     (case map_of (zip ''abcdefghijklmnopqrstuvwxyz'' ''ABCDEFGHIJKLMNOPQRSTUVWXYZ'') c of
        None \<Rightarrow> c | Some u \<Rightarrow> u)"

definition isalpha :: "char \<Rightarrow> bool" where
  "isalpha c = (c \<in> set ''abcdefghijklmnopqrstuvwxyzABCDEFGHIJKLMNOPQRSTUVWXYZ'')"

text \<open>\<^verbatim>\<open>re.search(lit, content, re.IGNORECASE)\<close> for a literal pattern: is there a match.\<close>

definition search_ci :: "string \<Rightarrow> string \<Rightarrow> bool" where
  "search_ci lit content = contains (map lower lit) (map lower content)"

text \<open>A literal at the start of the input, case-insensitively.\<close>

definition prefix_ci :: "string \<Rightarrow> string \<Rightarrow> bool" where
  "prefix_ci lit s = prefix (map lower lit) (map lower s)"

text \<open>\<^verbatim>\<open>s.lstrip(chars)\<close> and \<^verbatim>\<open>s.strip(chars)\<close>.\<close>

definition lstrip_chars :: "string \<Rightarrow> string \<Rightarrow> string" where
  "lstrip_chars chars s = dropWhile (\<lambda>c. c \<in> set chars) s"

definition strip_chars :: "string \<Rightarrow> string \<Rightarrow> string" where
  "strip_chars chars s =
     dropWhile (\<lambda>c. c \<in> set chars) (rev (dropWhile (\<lambda>c. c \<in> set chars) (rev s)))"

text \<open>\<^verbatim>\<open>s.replace(a, b)\<close> for one-character strings, and \<^verbatim>\<open>s.title()\<close>.\<close>

definition replace_char :: "char \<Rightarrow> char \<Rightarrow> string \<Rightarrow> string" where
  "replace_char a b s = map (\<lambda>c. if c = a then b else c) s"

fun title_from :: "bool \<Rightarrow> string \<Rightarrow> string" where
  "title_from prev_cased [] = []"
| "title_from prev_cased (c # cs) =
     (if isalpha c then (if prev_cased then lower c else upper c) # title_from True cs
      else c # title_from False cs)"

definition title :: "string \<Rightarrow> string" where
  "title s = title_from False s"

text \<open>\<^verbatim>\<open>Path.name\<close> and \<^verbatim>\<open>Path.stem\<close> of a path written with \<^verbatim>\<open>/\<close>.\<close>

definition path_name :: "string \<Rightarrow> string" where
  "path_name p = rev (takeWhile (\<lambda>c. c \<noteq> CHR ''/'') (rev p))"

definition path_stem :: "string \<Rightarrow> string" where
  "path_stem p =
     (let n = path_name p; ext = takeWhile (\<lambda>c. c \<noteq> CHR ''.'') (rev n) in
      if CHR ''.'' \<in> set n \<and> ext \<noteq> [] \<and> length ext + 1 < length n
      then take (length n - length ext - 1) n else n)"

section \<open>The project audit (audit.py)\<close>

record discovered_agent =
  name :: string
  description :: string
  file_path :: string
  owns :: "string list"
  never_touches :: "string list"

record audit_result =
  project_path :: string
  has_claude_dir :: bool
  has_agents_dir :: bool
  has_agents_md :: bool
  agents_md_valid :: bool
  discovered_agents :: "discovered_agent list"
  issues :: "string list"
  actions_taken :: "string list"

definition is_ready :: "audit_result \<Rightarrow> bool" where
  "is_ready r = (has_agents_dir r \<and> agents_md_valid r)"

subsection \<open>parse-agent-file\<close>

text \<open>
  The lazy group of \<^verbatim>\<open>^---\s*\n(.*?)\n---\<close> with \<^verbatim>\<open>re.DOTALL\<close>: the shortest text after
  which the input reads a newline and three dashes.
\<close>

fun until_dashes :: "string \<Rightarrow> string option" where
  "until_dashes [] = None"
| "until_dashes (c # cs) =
     (if prefix ''\<newline>---'' (c # cs) then Some []
      else (case until_dashes cs of None \<Rightarrow> None | Some g \<Rightarrow> Some (c # g)))"

definition frontmatter :: "string \<Rightarrow> string option" where
  "frontmatter content =
     (if prefix ''---'' content then star_nl isspace until_dashes (drop 3 content) else None)"

text \<open>The loop over the lines of the front matter: the last name and description win.\<close>

fun frontmatter_fields :: "string list \<Rightarrow> string \<times> string \<Rightarrow> string \<times> string" where
  "frontmatter_fields [] nd = nd"
| "frontmatter_fields (l # ls) (n, d) =
     (if prefix ''name:'' (strip l)
      then frontmatter_fields ls (strip (drop 5 (strip l)), d)
      else if prefix ''description:'' (strip l)
      then frontmatter_fields ls (n, strip (drop 12 (strip l)))
      else frontmatter_fields ls (n, d))"

text \<open>
  One item \<^verbatim>\<open>[-*]\s+.+\n?\<close> at the start of the input: its text and the rest. The
  whitespace is taken greedily and may span lines. When it runs to the end of the input,
  \<^verbatim>\<open>\s+\<close> gives back its last character that is not a newline to \<^verbatim>\<open>.+\<close> (and must keep
  one character itself).
\<close>

definition bullet_item :: "string \<Rightarrow> (string \<times> string) option" where
  "bullet_item s =
     (case s of
        [] \<Rightarrow> None
      | b # r \<Rightarrow>
          if b \<noteq> CHR ''-'' \<and> b \<noteq> CHR ''*'' then None
          else
            (let w = takeWhile isspace r; r1 = dropWhile isspace r in
             if w = [] then None
             else if r1 \<noteq> [] then
               (case dropWhile (\<lambda>c. c \<noteq> CHR 0x0A) r1 of
                  [] \<Rightarrow> Some (b # w @ r1, [])
                | c # r2 \<Rightarrow> Some (b # w @ takeWhile (\<lambda>c. c \<noteq> CHR 0x0A) r1 @ [c], r2))
             else
               (let ns = takeWhile (\<lambda>c. c = CHR 0x0A) (rev w);
                    pre = rev (dropWhile (\<lambda>c. c = CHR 0x0A) (rev w))
                in if length pre < 2 then None
                   else Some (b # pre @ take 1 ns, drop 1 ns))))"

lemma bullet_item_shorter: "bullet_item s = Some (t, r) \<Longrightarrow> length r < length s"
proof (cases s)
  case Nil
  assume "bullet_item s = Some (t, r)"
  with Nil show ?thesis by (simp add: bullet_item_def)
next
  case (Cons b q)
  assume a: "bullet_item s = Some (t, r)"
  have d: "length (dropWhile isspace q) \<le> length q" by (rule length_dropWhile_le)
  have e: "\<And>x y. dropWhile (\<lambda>c. c \<noteq> CHR 0x0A) (dropWhile isspace q) = x # y
             \<Longrightarrow> length y < length q"
  proof -
    fix x y assume h: "dropWhile (\<lambda>c. c \<noteq> CHR 0x0A) (dropWhile isspace q) = x # y"
    have "length (dropWhile (\<lambda>c. c \<noteq> CHR 0x0A) (dropWhile isspace q))
            \<le> length (dropWhile isspace q)" by (rule length_dropWhile_le)
    with h d show "length y < length q" by simp
  qed
  have f: "length (takeWhile (\<lambda>c. c = CHR 0x0A) (rev (takeWhile isspace q))) \<le> length q"
  proof -
    have "length (takeWhile (\<lambda>c. c = CHR 0x0A) (rev (takeWhile isspace q)))
            \<le> length (rev (takeWhile isspace q))" by (rule length_takeWhile_le)
    also have "\<dots> \<le> length q" by (simp add: length_takeWhile_le)
    finally show ?thesis .
  qed
  from a Cons e f show ?thesis
    by (auto simp: bullet_item_def Let_def split: if_splits list.splits)
qed

text \<open>The greedy group \<^verbatim>\<open>((?:[-*]\s+.+\n?)+)\<close>: the text of the items, one after the other.\<close>

function bullet_items :: "string \<Rightarrow> string" where
  "bullet_items s =
     (case bullet_item s of None \<Rightarrow> [] | Some (t, r) \<Rightarrow> t @ bullet_items r)"
  by pat_completeness auto
termination
  by (relation "measure length") (auto simp: bullet_item_shorter)

text \<open>
  \<^verbatim>\<open>Files I OWN[:\s]*\n((?:[-*]\s+.+\n?)+)\<close> and \<^verbatim>\<open>NEVER touch[:\s]*\n((?:[-*]\s+.+\n?)+)\<close>
  with \<^verbatim>\<open>re.IGNORECASE\<close>, at the start of the input: group 1.
\<close>

definition bullets_after :: "string \<Rightarrow> string \<Rightarrow> string option" where
  "bullets_after label s =
     (if prefix_ci label s
      then star_nl (\<lambda>c. c = CHR '':'' \<or> isspace c)
             (\<lambda>r. case bullet_items r of [] \<Rightarrow> None | c # cs \<Rightarrow> Some (c # cs))
             (drop (length label) s)
      else None)"

text \<open>The loop over the lines of such a group: the paths of the bullet lines.\<close>

fun bullet_paths :: "string list \<Rightarrow> string list" where
  "bullet_paths [] = []"
| "bullet_paths (l # ls) =
     (if prefix ''-'' (strip l) \<or> prefix ''*'' (strip l)
      then (case strip_chars ''`'' (lstrip_chars ''-* '' (strip l)) of
              [] \<Rightarrow> bullet_paths ls
            | c # cs \<Rightarrow> (c # cs) # bullet_paths ls)
      else bullet_paths ls)"

text \<open>
  The file is given by its path and its text, \<open>None\<close> when \<^verbatim>\<open>read_text\<close> raises.
\<close>

definition parse_agent_file :: "string \<Rightarrow> string option \<Rightarrow> discovered_agent option" where
  "parse_agent_file path text =
     (case text of
        None \<Rightarrow> None
      | Some content \<Rightarrow>
          (case frontmatter content of
             None \<Rightarrow> None
           | Some fm \<Rightarrow>
               (case frontmatter_fields (split_on CHR 0x0A fm) ([], []) of
                  (n, d) \<Rightarrow>
                    Some \<lparr>name = (if n \<noteq> [] then n else path_stem path),
                          description =
                            (if d \<noteq> [] then take 100 d else ''Agent from '' @ path_name path),
                          file_path = path,
                          owns =
                            (case re_search (bullets_after ''Files I OWN'') content of
                               None \<Rightarrow> []
                             | Some g \<Rightarrow> bullet_paths (split_on CHR 0x0A g)),
                          never_touches =
                            (case re_search (bullets_after ''NEVER touch'') content of
                               None \<Rightarrow> []
                             | Some g \<Rightarrow> bullet_paths (split_on CHR 0x0A g))\<rparr>)))"

subsection \<open>validate-agents-md\<close>

text \<open>The required sections: the name, and the alternatives of its pattern.\<close>

definition required_sections :: "(string \<times> string list) list" where
  "required_sections =
     [(''Agent Registry'', [''Agent Registry'', ''## Agents'']),
      (''Ownership Matrix'', [''Ownership Matrix'']),
      (''Routing Table'', [''Routing Table''])]"

fun missing_sections :: "(string \<times> string list) list \<Rightarrow> string \<Rightarrow> string list" where
  "missing_sections [] content = []"
| "missing_sections ((section_name, alts) # rest) content =
     (if list_ex (\<lambda>lit. search_ci lit content) alts
      then missing_sections rest content
      else (''Missing section: '' @ section_name) # missing_sections rest content)"

definition validate_agents_md :: "string \<Rightarrow> bool \<times> string list" where
  "validate_agents_md content =
     (missing_sections required_sections content = [],
      missing_sections required_sections content)"

subsection \<open>generate-agents-md and generate-minimal-agents-md\<close>

definition backticked :: "string list \<Rightarrow> string" where
  "backticked ps =
     (case join '', '' (map (\<lambda>p. ''`'' @ p @ ''`'') (take 3 ps)) of
        [] \<Rightarrow> ''TBD'' | c # cs \<Rightarrow> c # cs)"

definition registry_row :: "discovered_agent \<Rightarrow> string" where
  "registry_row a =
     ''| '' @ discovered_agent.name a @ '' | `'' @ path_name (file_path a) @ ''` | ''
     @ take 50 (discovered_agent.description a) @ ''... |''"

definition ownership_row :: "discovered_agent \<Rightarrow> string" where
  "ownership_row a =
     ''| `'' @ discovered_agent.name a @ ''` | '' @ backticked (owns a) @ '' | ''
     @ backticked (never_touches a) @ '' |''"

definition routing_row :: "discovered_agent \<Rightarrow> string" where
  "routing_row a =
     ''| ''
     @ (if discovered_agent.description a \<noteq> [] then take 30 (discovered_agent.description a)
        else discovered_agent.name a)
     @ '' | `'' @ discovered_agent.name a @ ''` |''"

definition generate_agents_md :: "discovered_agent list \<Rightarrow> string \<Rightarrow> string" where
  "generate_agents_md agents project_name =
     ''# '' @ project_name @ '' Agent System\<newline>\<newline>''
     @ ''This document is the **single source of truth** for agent coordination.\<newline>''
     @ ''\<newline>---\<newline>\<newline>## Agent Registry\<newline>\<newline>''
     @ ''| Agent | File | Purpose |\<newline>|-------|------|---------|\<newline>''
     @ join ''\<newline>'' (map registry_row agents)
     @ ''\<newline>\<newline>---\<newline>\<newline>## Ownership Matrix\<newline>''
     @ ''\<newline>''
     @ ''**Each agent has EXCLUSIVE ownership of specific file paths.**\<newline>''
     @ ''\<newline>| Agent | OWNS (only they modify) | NEVER touches |\<newline>''
     @ ''|-------|-------------------------|---------------|\<newline>''
     @ join ''\<newline>'' (map ownership_row agents)
     @ ''\<newline>\<newline>---\<newline>\<newline>## Routing Table\<newline>''
     @ ''\<newline>| IF task involves... | SPAWN this agent |\<newline>''
     @ ''|---------------------|------------------|\<newline>''
     @ join ''\<newline>'' (map routing_row agents)
     @ ''\<newline>\<newline>---\<newline>\<newline>## Dependency Graph\<newline>''
     @ ''\<newline>```\<newline>[Define execution order here]\<newline>    ''
     @ [CHR 0xE2, CHR 0x94, CHR 0x82]
     @ ''\<newline>    ''
     @ [CHR 0xE2, CHR 0x96, CHR 0xBC]
     @ ''\<newline>finalize (ALWAYS last)\<newline>```\<newline>\<newline>''
     @ ''---\<newline>\<newline>## Notes\<newline>\<newline>''
     @ ''This AGENTS.md was auto-generated by the orchestrator.\<newline>''
     @ ''Review and customize the ownership matrix and routing table.\<newline>''"

definition generate_minimal_agents_md :: "string \<Rightarrow> string" where
  "generate_minimal_agents_md project_name =
     ''# '' @ project_name @ '' Agent System\<newline>\<newline>''
     @ ''This document is the **single source of truth** for agent coordination.\<newline>''
     @ ''\<newline>---\<newline>\<newline>## Agent Registry\<newline>\<newline>''
     @ ''| Agent | File | Purpose |\<newline>|-------|------|---------|\<newline>''
     @ ''| (no domain agents defined) | - | - |\<newline>\<newline>---\<newline>''
     @ ''\<newline>## Ownership Matrix\<newline>\<newline>''
     @ ''| Agent | OWNS (only they modify) | NEVER touches |\<newline>''
     @ ''|-------|-------------------------|---------------|\<newline>''
     @ ''| (define domain agents) | - | - |\<newline>\<newline>---\<newline>''
     @ ''\<newline>## Routing Table\<newline>\<newline>''
     @ ''| IF task involves... | SPAWN this agent |\<newline>''
     @ ''|---------------------|------------------|\<newline>''
     @ ''| (define routing rules) | - |\<newline>\<newline>---\<newline>\<newline>''
     @ ''## Adding Domain Agents\<newline>\<newline>''
     @ ''1. Create `.claude/agents/your-agent.md` with:\<newline>''
     @ ''   ```markdown\<newline>   ---\<newline>   name: your-agent\<newline>''
     @ ''   description: What this agent does\<newline>   ---\<newline>\<newline>''
     @ ''   You are the [Name] Agent...\<newline>\<newline>''
     @ ''   ## Files I OWN:\<newline>   - path/to/files/\<newline>\<newline>''
     @ ''   ## Files I NEVER touch:\<newline>   - other/paths/\<newline>''
     @ ''   ```\<newline>\<newline>''
     @ ''2. Update this AGENTS.md to register the agent\<newline>\<newline>''
     @ ''---\<newline>\<newline>## Notes\<newline>\<newline>''
     @ ''This is a minimal template. Add domain-specific agents for your project.\<newline>''"

subsection \<open>audit-project\<close>

text \<open>
  The part of the file system the audit reads and writes: the project path, whether
  \<^verbatim>\<open>.claude\<close> and \<^verbatim>\<open>.claude/tasks\<close> exist, and the files of \<^verbatim>\<open>.claude/agents\<close> when that
  directory exists, in the order \<^verbatim>\<open>glob\<close> lists them, each with its text (\<open>None\<close> when
  \<^verbatim>\<open>read_text\<close> raises).
\<close>

record project =
  root :: string
  claude_dir :: bool
  agents_dir :: "(string \<times> string option) list option"
  tasks_dir :: bool

datatype io_error = ReadError

definition agents_files :: "project \<Rightarrow> (string \<times> string option) list" where
  "agents_files p = (case agents_dir p of None \<Rightarrow> [] | Some fs \<Rightarrow> fs)"

text \<open>The loop over \<^verbatim>\<open>agents_dir.glob("*.md")\<close>.\<close>

fun discover :: "string \<Rightarrow> (string \<times> string option) list \<Rightarrow> discovered_agent list" where
  "discover dir [] = []"
| "discover dir ((n, text) # fs) =
     (if \<not> suffix ''.md'' n \<or> n = ''AGENTS.md'' then discover dir fs
      else (case parse_agent_file (dir @ ''/'' @ n) text of
              None \<Rightarrow> discover dir fs
            | Some a \<Rightarrow> a # discover dir fs))"

text \<open>\<^verbatim>\<open>agents_md.write_text(content)\<close> on the files of the directory.\<close>

fun write_file :: "string \<Rightarrow> string \<Rightarrow> (string \<times> string option) list
    \<Rightarrow> (string \<times> string option) list" where
  "write_file n content [] = [(n, Some content)]"
| "write_file n content ((m, t) # fs) =
     (if m = n then (n, Some content) # fs else (m, t) # write_file n content fs)"

text \<open>
  The audit, in the steps of the source: the checks up to the validation of the registry
  (\<open>Inl\<close> when \<^verbatim>\<open>AGENTS.md\<close> exists and cannot be read), the three directories the fix
  creates, and the registry the fix writes.
\<close>

definition audit_checks :: "project \<Rightarrow> io_error + audit_result" where
  "audit_checks p =
     (case map_of (agents_files p) ''AGENTS.md'' of
        Some None \<Rightarrow> Inl ReadError
      | Some (Some content) \<Rightarrow>
          Inr \<lparr>project_path = root p,
                has_claude_dir = claude_dir p,
                has_agents_dir = (agents_dir p \<noteq> None),
                has_agents_md = True,
                agents_md_valid = fst (validate_agents_md content),
                discovered_agents = discover (root p @ ''/.claude/agents'') (agents_files p),
                issues = snd (validate_agents_md content),
                actions_taken = []\<rparr>
      | None \<Rightarrow>
          Inr \<lparr>project_path = root p,
                has_claude_dir = claude_dir p,
                has_agents_dir = (agents_dir p \<noteq> None),
                has_agents_md = False,
                agents_md_valid = False,
                discovered_agents = discover (root p @ ''/.claude/agents'') (agents_files p),
                issues = [''AGENTS.md not found''],
                actions_taken = []\<rparr>)"

definition create_claude_dir :: "audit_result \<Rightarrow> audit_result" where
  "create_claude_dir r =
     (if \<not> has_claude_dir r
      then r\<lparr>actions_taken := actions_taken r @ [''Created .claude/ directory''],
             has_claude_dir := True\<rparr>
      else r)"

definition create_agents_dir :: "audit_result \<Rightarrow> audit_result" where
  "create_agents_dir r =
     (if \<not> has_agents_dir r
      then r\<lparr>actions_taken := actions_taken r @ [''Created .claude/agents/ directory''],
             has_agents_dir := True\<rparr>
      else r)"

definition create_tasks_dir :: "project \<Rightarrow> audit_result \<Rightarrow> audit_result" where
  "create_tasks_dir p r =
     (if \<not> tasks_dir p
      then r\<lparr>actions_taken := actions_taken r @ [''Created .claude/tasks/ directory'']\<rparr>
      else r)"

definition registry_content :: "project \<Rightarrow> audit_result \<Rightarrow> string" where
  "registry_content p r =
     (if discovered_agents r \<noteq> []
      then generate_agents_md (discovered_agents r)
             (title (replace_char CHR ''-'' CHR '' '' (path_name (root p))))
      else generate_minimal_agents_md (path_name (root p)))"

definition registry_action :: "audit_result \<Rightarrow> string" where
  "registry_action r =
     (if discovered_agents r \<noteq> []
      then ''Generated AGENTS.md from '' @ str_nat (length (discovered_agents r))
           @ '' discovered agents''
      else ''Created minimal AGENTS.md template'')"

definition create_or_fix_registry :: "project \<Rightarrow> audit_result \<Rightarrow> audit_result \<times> project" where
  "create_or_fix_registry p r =
     (if \<not> has_agents_md r \<or> \<not> agents_md_valid r
      then (r\<lparr>actions_taken := actions_taken r @ [registry_action r],
              has_agents_md := True,
              agents_md_valid := True,
              issues := filter (\<lambda>i. \<not> contains ''AGENTS.md'' i) (issues r)\<rparr>,
            p\<lparr>claude_dir := True,
              agents_dir :=
                Some (write_file ''AGENTS.md'' (registry_content p r) (agents_files p)),
              tasks_dir := True\<rparr>)
      else (r, p\<lparr>claude_dir := True, agents_dir := Some (agents_files p), tasks_dir := True\<rparr>))"

definition audit_project :: "project \<Rightarrow> bool \<Rightarrow> io_error + audit_result \<times> project" where
  "audit_project p auto_fix =
     (case audit_checks p of
        Inl e \<Rightarrow> Inl e
      | Inr r \<Rightarrow>
          if auto_fix
          then Inr (create_or_fix_registry p
                      (create_tasks_dir p (create_agents_dir (create_claude_dir r))))
          else Inr (r, p))"

section \<open>The session document (mcp_server/session.py)\<close>

text \<open>
  The dictionaries of \<^verbatim>\<open>parse_session\<close>: a phase and a session. Numbers are Python's
  unbounded integers.
\<close>

record phase =
  number :: int
  complete :: bool
  agent :: string
  description :: string

record session =
  name :: string
  phase :: int
  total_phases :: int
  current_agent :: string
  state :: string
  user_request :: string
  phases :: "phase list"
  work_log :: string

subsection \<open>parse-session: the patterns\<close>

text \<open>\<^verbatim>\<open>^# Session: (.+)$\<close> with \<^verbatim>\<open>re.MULTILINE\<close>, on one line of the text: group 1.\<close>

definition session_name_line :: "string \<Rightarrow> string option" where
  "session_name_line l =
     (if prefix ''# Session: '' l \<and> drop 11 l \<noteq> [] then Some (drop 11 l) else None)"

text \<open>\<^verbatim>\<open>## Status\s*\n((?:- .+\n)+)\<close> at the start of the input: group 1.\<close>

definition status_line :: "string \<Rightarrow> bool" where
  "status_line l = (prefix ''- '' l \<and> drop 2 l \<noteq> [])"

definition status_at :: "string \<Rightarrow> string option" where
  "status_at s =
     (if prefix ''## Status'' s
      then star_nl isspace (\<lambda>r. case lines_while status_line r of [] \<Rightarrow> None
                       | c # cs \<Rightarrow> Some (c # cs)) (drop 9 s)
      else None)"

text \<open>\<^verbatim>\<open>Phase: (\d+) of (\d+)\<close> at the start of the input: groups 1 and 2.\<close>

definition phase_of_at :: "string \<Rightarrow> (string \<times> string) option" where
  "phase_of_at s =
     (if prefix ''Phase: '' s then
        (let d1 = takeWhile isdigit (drop 7 s); r1 = dropWhile isdigit (drop 7 s) in
         if d1 \<noteq> [] \<and> prefix '' of '' r1 then
           (let d2 = takeWhile isdigit (drop 4 r1) in
            if d2 \<noteq> [] then Some (d1, d2) else None)
         else None)
      else None)"

text \<open>\<^verbatim>\<open>Current Agent: (\S+)\<close> at the start of the input: group 1.\<close>

definition current_agent_at :: "string \<Rightarrow> string option" where
  "current_agent_at s =
     (if prefix ''Current Agent: '' s
      then (let a = takeWhile (\<lambda>c. \<not> isspace c) (drop 15 s) in
            if a \<noteq> [] then Some a else None)
      else None)"

text \<open>\<^verbatim>\<open>State: (\w+)\<close> at the start of the input: group 1.\<close>

definition state_at :: "string \<Rightarrow> string option" where
  "state_at s =
     (if prefix ''State: '' s
      then (let w = takeWhile isword (drop 7 s) in if w \<noteq> [] then Some w else None)
      else None)"

text \<open>\<^verbatim>\<open>## User Request\s*\n([\s\S]*?)(?=\n## |\Z)\<close> at the start of the input: group 1.\<close>

definition user_request_at :: "string \<Rightarrow> string option" where
  "user_request_at s =
     (if prefix ''## User Request'' s
      then star_nl isspace (\<lambda>r. Some (until_section r)) (drop 15 s)
      else None)"

text \<open>\<^verbatim>\<open>## Phases\s*\n((?:\d+\. .+\n)+)\<close> at the start of the input: group 1.\<close>

definition numbered_line :: "string \<Rightarrow> bool" where
  "numbered_line l =
     (takeWhile isdigit l \<noteq> [] \<and> prefix ''. '' (dropWhile isdigit l)
      \<and> drop 2 (dropWhile isdigit l) \<noteq> [])"

definition phases_at :: "string \<Rightarrow> string option" where
  "phases_at s =
     (if prefix ''## Phases'' s
      then star_nl isspace (\<lambda>r. case lines_while numbered_line r of [] \<Rightarrow> None
                       | c # cs \<Rightarrow> Some (c # cs)) (drop 9 s)
      else None)"

text \<open>
  \<^verbatim>\<open>re.match(r'(\d+)\. \[([x ])\] (\S+) - (.+)', line)\<close>: the phase of a line, when the
  line has the shape. The agent is the longest run without whitespace, the description
  runs to the end of the line.
\<close>

definition phase_line :: "string \<Rightarrow> phase option" where
  "phase_line l =
     (let d = takeWhile isdigit l; r1 = dropWhile isdigit l in
      if d = [] \<or> \<not> prefix ''. ['' r1 then None
      else
        (case drop 3 r1 of
           [] \<Rightarrow> None
         | m # r2 \<Rightarrow>
             if (m \<noteq> CHR ''x'' \<and> m \<noteq> CHR '' '') \<or> \<not> prefix ''] '' r2 then None
             else
               (let a = takeWhile (\<lambda>c. \<not> isspace c) (drop 2 r2);
                    r3 = dropWhile (\<lambda>c. \<not> isspace c) (drop 2 r2);
                    desc = takeWhile (\<lambda>c. c \<noteq> CHR 0x0A) (drop 3 r3)
                in if a = [] \<or> \<not> prefix '' - '' r3 \<or> desc = [] then None
                   else Some \<lparr>number = int_of_digits d, complete = (m = CHR ''x''),
                              agent = a, description = desc\<rparr>)))"

text \<open>The loop over the lines of a phase block: the lines with the shape, in order.\<close>

fun collect_phases :: "string list \<Rightarrow> phase list" where
  "collect_phases [] = []"
| "collect_phases (l # ls) =
     (case phase_line (strip l) of
        Some p \<Rightarrow> p # collect_phases ls
      | None \<Rightarrow> collect_phases ls)"

text \<open>\<^verbatim>\<open>## Work Log\s*\n([\s\S]*?)(?=\n## |\Z)\<close> at the start of the input: group 1.\<close>

definition work_log_at :: "string \<Rightarrow> string option" where
  "work_log_at s =
     (if prefix ''## Work Log'' s
      then star_nl isspace (\<lambda>r. Some (until_section r)) (drop 11 s)
      else None)"

subsection \<open>parse-session and format-session\<close>

definition parse_session :: "string \<Rightarrow> session" where
  "parse_session content =
     (let status = re_search status_at content;
          counts = (case status of None \<Rightarrow> None | Some st \<Rightarrow> re_search phase_of_at st)
      in \<lparr>name = (case first_some session_name_line (split_on CHR 0x0A content) of
                     None \<Rightarrow> [] | Some n \<Rightarrow> strip n),
           phase = (case counts of None \<Rightarrow> 0 | Some (a, b) \<Rightarrow> int_of_digits a),
           total_phases = (case counts of None \<Rightarrow> 0 | Some (a, b) \<Rightarrow> int_of_digits b),
           current_agent =
             (case status of None \<Rightarrow> []
              | Some st \<Rightarrow> (case re_search current_agent_at st of None \<Rightarrow> [] | Some a \<Rightarrow> a)),
           state =
             (case status of None \<Rightarrow> ''unknown''
              | Some st \<Rightarrow> (case re_search state_at st of None \<Rightarrow> ''unknown'' | Some w \<Rightarrow> w)),
           user_request =
             (case re_search user_request_at content of None \<Rightarrow> [] | Some u \<Rightarrow> strip u),
           phases =
             (case re_search phases_at content of
                None \<Rightarrow> []
              | Some b \<Rightarrow> collect_phases (split_on CHR 0x0A (strip b))),
           work_log =
             (case re_search work_log_at content of None \<Rightarrow> [] | Some w \<Rightarrow> strip w)\<rparr>)"

definition placeholder :: string where
  "placeholder = ''(agents will update this)''"

definition format_phase :: "phase \<Rightarrow> string" where
  "format_phase p =
     str_int (number p) @ ''. ['' @ (if complete p then ''x'' else '' '') @ ''] ''
     @ agent p @ '' - '' @ description p"

definition format_session :: "session \<Rightarrow> string" where
  "format_session s =
     ''# Session: '' @ name s @ ''\<newline>\<newline>## Status\<newline>- Phase: ''
     @ str_int (phase s) @ '' of '' @ str_int (total_phases s)
     @ ''\<newline>- Current Agent: '' @ current_agent s
     @ ''\<newline>- State: '' @ state s
     @ ''\<newline>\<newline>## User Request\<newline>'' @ user_request s
     @ ''\<newline>\<newline>## Phases\<newline>''
     @ join ''\<newline>'' (map format_phase (phases s))
     @ ''\<newline>\<newline>## Work Log\<newline>''
     @ (if work_log s \<noteq> [] then work_log s else placeholder)
     @ ''\<newline>''"

subsection \<open>The tools\<close>

text \<open>
  The session file \<^verbatim>\<open>.claude/tasks/session-current.md\<close> is its text, or \<open>None\<close> when it
  does not exist. A tool returns its answer, and the file as it leaves it.
\<close>

datatype error = NoSessionFile | PhaseNotFound int

text \<open>
  The first loop of \<^verbatim>\<open>session_mark_phase_complete\<close>: the first phase with the number is
  marked; the result is the new list and that phase's agent, or \<open>None\<close> when the loop
  ends without a \<^verbatim>\<open>break\<close>.
\<close>

fun mark_first :: "int \<Rightarrow> phase list \<Rightarrow> (phase list \<times> string) option" where
  "mark_first k [] = None"
| "mark_first k (p # ps) =
     (if number p = k then Some (p\<lparr>complete := True\<rparr> # ps, agent p)
      else (case mark_first k ps of
              None \<Rightarrow> None
            | Some (ps', a) \<Rightarrow> Some (p # ps', a)))"

definition log_entry :: "int \<Rightarrow> string \<Rightarrow> string \<Rightarrow> string" where
  "log_entry k phase_agent notes =
     ''### Phase '' @ str_int k @ '' ('' @ phase_agent @ '')\<newline>'' @ notes"

text \<open>
  What \<^verbatim>\<open>session_mark_phase_complete\<close> does to the parsed session, between reading the
  file and writing it.
\<close>

definition mark_phase_complete :: "session \<Rightarrow> int \<Rightarrow> string \<Rightarrow> error + session" where
  "mark_phase_complete s phase_number notes =
     (case mark_first phase_number (phases s) of
        None \<Rightarrow> Inl (PhaseNotFound phase_number)
      | Some (ps, phase_agent) \<Rightarrow>
          (let s1 = s\<lparr>phases := ps\<rparr>;
               s2 = (case find (\<lambda>p. \<not> complete p) ps of
                       Some next_phase \<Rightarrow>
                         s1\<lparr>phase := number next_phase,
                            current_agent := agent next_phase,
                            state := ''pending''\<rparr>
                     | None \<Rightarrow> s1\<lparr>state := ''complete'', current_agent := ''none''\<rparr>)
           in Inr (if notes \<noteq> []
                   then s2\<lparr>work_log :=
                            (if work_log s2 \<noteq> [] \<and> work_log s2 \<noteq> placeholder
                             then work_log s2 @ ''\<newline>\<newline>''
                                  @ log_entry phase_number phase_agent notes
                             else log_entry phase_number phase_agent notes)\<rparr>
                   else s2)))"

record mark_result =
  phase_marked :: int
  next_phase :: "int option"
  next_agent :: "string option"
  all_complete :: bool

definition session_mark_phase_complete ::
    "string option \<Rightarrow> int \<Rightarrow> string \<Rightarrow> (error + mark_result) \<times> string option" where
  "session_mark_phase_complete file phase_number notes =
     (case file of
        None \<Rightarrow> (Inl NoSessionFile, file)
      | Some content \<Rightarrow>
          (case mark_phase_complete (parse_session content) phase_number notes of
             Inl e \<Rightarrow> (Inl e, file)
           | Inr s \<Rightarrow>
               (Inr \<lparr>phase_marked = phase_number,
                     next_phase = map_option number (find (\<lambda>p. \<not> complete p) (phases s)),
                     next_agent = map_option agent (find (\<lambda>p. \<not> complete p) (phases s)),
                     all_complete = (find (\<lambda>p. \<not> complete p) (phases s) = None)\<rparr>,
                Some (format_session s))))"

text \<open>\<^verbatim>\<open>session_get_next_phase\<close>: the first phase that is not complete, in the list's order.\<close>

record next_phase_result =
  phase_number :: int
  next_phase_agent :: string
  next_phase_description :: string
  depends_on :: "string list"
  next_user_request :: string

definition get_next_phase :: "session \<Rightarrow> next_phase_result option" where
  "get_next_phase s =
     (case find (\<lambda>p. \<not> complete p) (phases s) of
        None \<Rightarrow> None
      | Some ph \<Rightarrow>
          Some \<lparr>phase_number = number ph,
                next_phase_agent = agent ph,
                next_phase_description = description ph,
                depends_on =
                  map agent (filter (\<lambda>p. complete p \<and> number p < number ph) (phases s)),
                next_user_request = user_request s\<rparr>)"

definition session_get_next_phase :: "string option \<Rightarrow> error + next_phase_result option" where
  "session_get_next_phase file =
     (case file of
        None \<Rightarrow> Inl NoSessionFile
      | Some content \<Rightarrow> Inr (get_next_phase (parse_session content)))"

text \<open>\<^verbatim>\<open>session_is_complete\<close>: the counts of the phases, complete when none remains.\<close>

record is_complete_result =
  is_complete :: bool
  completed_count :: nat
  total_count :: nat
  remaining :: "string list"

definition is_complete_of :: "session \<Rightarrow> is_complete_result" where
  "is_complete_of s =
     \<lparr>is_complete = (length (filter (\<lambda>p. \<not> complete p) (phases s)) = 0),
      completed_count = length (filter complete (phases s)),
      total_count = length (phases s),
      remaining =
        map (\<lambda>p. str_int (number p) @ ''. '' @ agent p @ '' - '' @ description p)
          (filter (\<lambda>p. \<not> complete p) (phases s))\<rparr>"

definition session_is_complete :: "string option \<Rightarrow> error + is_complete_result" where
  "session_is_complete file =
     (case file of
        None \<Rightarrow> Inl NoSessionFile
      | Some content \<Rightarrow> Inr (is_complete_of (parse_session content)))"

section \<open>The orchestrator (main.py)\<close>

text \<open>\<^verbatim>\<open>parse_phases\<close>: every line of the text with the shape of a phase.\<close>

definition parse_phases :: "string \<Rightarrow> phase list" where
  "parse_phases content = collect_phases (split_on CHR 0x0A content)"

text \<open>
  \<^verbatim>\<open>re.findall(r'\d+\. \[([x ])\]', content)\<close>: the pattern at the start of the input
  (group 1 and the rest of the input), and the scan for the matches that do not overlap.
\<close>

definition marker_at :: "string \<Rightarrow> (char \<times> string) option" where
  "marker_at s =
     (if takeWhile isdigit s \<noteq> [] \<and> prefix ''. ['' (dropWhile isdigit s) then
        (case drop 3 (dropWhile isdigit s) of
           m # c # r \<Rightarrow>
             if (m = CHR ''x'' \<or> m = CHR '' '') \<and> c = CHR '']'' then Some (m, r) else None
         | _ \<Rightarrow> None)
      else None)"

lemma marker_at_shorter: "marker_at s = Some (m, r) \<Longrightarrow> length r < length s"
proof -
  assume a: "marker_at s = Some (m, r)"
  then obtain c where "drop 3 (dropWhile isdigit s) = m # c # r"
    by (auto simp: marker_at_def split: if_splits list.splits)
  then have "length (drop 3 (dropWhile isdigit s)) = Suc (Suc (length r))" by simp
  moreover have "length (dropWhile isdigit s) \<le> length s" by (rule length_dropWhile_le)
  ultimately show ?thesis by simp
qed

function findall_markers :: "string \<Rightarrow> char list" where
  "findall_markers [] = []"
| "findall_markers (c # cs) =
     (case marker_at (c # cs) of
        Some (m, r) \<Rightarrow> m # findall_markers r
      | None \<Rightarrow> findall_markers cs)"
  by pat_completeness auto
termination
  by (relation "measure length") (auto dest!: marker_at_shorter)

text \<open>
  \<^verbatim>\<open>is_session_complete\<close> and \<^verbatim>\<open>get_current_phase\<close>, on the session file (\<open>None\<close> when it
  does not exist).
\<close>

definition is_session_complete :: "string option \<Rightarrow> bool" where
  "is_session_complete file =
     (case file of
        None \<Rightarrow> False
      | Some content \<Rightarrow>
          if contains ''State: complete'' content then True
          else findall_markers content \<noteq> []
               \<and> list_all (\<lambda>p. p = CHR ''x'') (findall_markers content))"

definition get_current_phase :: "string option \<Rightarrow> phase option" where
  "get_current_phase file =
     (case file of
        None \<Rightarrow> None
      | Some content \<Rightarrow> find (\<lambda>p. \<not> complete p) (parse_phases content))"

subsection \<open>archive-session\<close>

text \<open>
  The tasks directory is the list of its entries, name and text, in the order \<^verbatim>\<open>glob\<close>
  lists them. \<^verbatim>\<open>int(s)\<close> on an ASCII string: whitespace around, a sign, and digits with
  single underscores between them; \<open>None\<close> is \<^verbatim>\<open>ValueError\<close>.
\<close>

fun digits_us :: "string \<Rightarrow> bool" where
  "digits_us [] = False"
| "digits_us [c] = isdigit c"
| "digits_us (c # d # r) =
     (isdigit c \<and> (if d = CHR ''_'' then digits_us r else digits_us (d # r)))"

definition int_space :: "char \<Rightarrow> bool" where
  "int_space c = (c \<in> set [CHR 0x09, CHR 0x0A, CHR 0x0B, CHR 0x0C, CHR 0x0D, CHR 0x20])"

definition py_int :: "string \<Rightarrow> int option" where
  "py_int s =
     (let t = dropWhile int_space (rev (dropWhile int_space (rev s))) in
      case t of
        [] \<Rightarrow> None
      | c # r \<Rightarrow>
          if c = CHR ''-'' then
            (if digits_us r then Some (- int_of_digits (filter (\<lambda>c. c \<noteq> CHR ''_'') r)) else None)
          else if c = CHR ''+'' then
            (if digits_us r then Some (int_of_digits (filter (\<lambda>c. c \<noteq> CHR ''_'') r)) else None)
          else
            (if digits_us t then Some (int_of_digits (filter (\<lambda>c. c \<noteq> CHR ''_'') t)) else None))"

text \<open>\<^verbatim>\<open>glob("session-*.md")\<close> on a name.\<close>

definition glob_session :: "string \<Rightarrow> bool" where
  "glob_session n = (prefix ''session-'' n \<and> suffix ''.md'' (drop 8 n))"

text \<open>
  The body of the loop: \<^verbatim>\<open>int(f.stem.split("-")[1])\<close> of a listed name, \<open>None\<close> when the
  name is skipped (the current session, \<^verbatim>\<open>IndexError\<close>, \<^verbatim>\<open>ValueError\<close>).
\<close>

definition archive_number :: "string \<Rightarrow> int option" where
  "archive_number n =
     (if n = ''session-current.md'' then None
      else (case split_on CHR ''-'' (path_stem n) of
              a # b # rest \<Rightarrow> py_int b
            | _ \<Rightarrow> None))"

fun max_num :: "string list \<Rightarrow> int \<Rightarrow> int" where
  "max_num [] m = m"
| "max_num (n # ns) m =
     (case archive_number n of
        None \<Rightarrow> max_num ns m
      | Some num \<Rightarrow> max_num ns (max m num))"

text \<open>\<^verbatim>\<open>Path.rename\<close> within the directory: an entry with the new name is replaced.\<close>

definition rename :: "string \<Rightarrow> string \<Rightarrow> (string \<times> string) list \<Rightarrow> (string \<times> string) list" where
  "rename old new d =
     map (\<lambda>(n, t). if n = old then (new, t) else (n, t)) (filter (\<lambda>(n, t). n \<noteq> new) d)"

definition archive_session :: "(string \<times> string) list \<Rightarrow> (string \<times> string) list" where
  "archive_session d =
     (if ''session-current.md'' \<notin> set (map fst d) then d
      else rename ''session-current.md''
             (''session-'' @ str_int (max_num (filter glob_session (map fst d)) 0 + 1) @ ''.md'')
             d)"

text \<open>The name \<^verbatim>\<open>session-{k}.md\<close> of the archive numbered \<open>k\<close>.\<close>

definition archive_name :: "nat \<Rightarrow> string" where
  "archive_name k = ''session-'' @ str_nat k @ ''.md''"

section \<open>Sessions in canonical form\<close>

text \<open>
  The sessions for which the round trip through \<^const>\<open>format_session\<close> and
  \<^const>\<open>parse_session\<close> is stated. A token is not empty and has no whitespace. A phase has
  a number that is not negative, a token as agent, and a description of one line that is
  not empty, does not end in whitespace and does not contain \<^verbatim>\<open>## \<close>. The name is one
  line, stripped, not empty, without \<^verbatim>\<open>## \<close>; the counters are not negative; the current
  agent is a token and the state a word; the user request is stripped, not empty and
  without \<^verbatim>\<open>## \<close>; the work log is stripped and has no line that starts with \<^verbatim>\<open>## \<close>
  after its first (and does not contain \<^verbatim>\<open>## Phases\<close> when there is no phase).
\<close>

definition token :: "string \<Rightarrow> bool" where
  "token a = (a \<noteq> [] \<and> list_all (\<lambda>c. \<not> isspace c) a)"

definition phase_ok :: "phase \<Rightarrow> bool" where
  "phase_ok p =
     (0 \<le> number p \<and> token (agent p)
      \<and> description p \<noteq> [] \<and> CHR 0x0A \<notin> set (description p)
      \<and> rstrip (description p) = description p
      \<and> \<not> contains ''## '' (description p))"

definition session_ok :: "session \<Rightarrow> bool" where
  "session_ok s =
     (name s \<noteq> [] \<and> CHR 0x0A \<notin> set (name s) \<and> strip (name s) = name s
      \<and> \<not> contains ''## '' (name s)
      \<and> 0 \<le> phase s \<and> 0 \<le> total_phases s
      \<and> token (current_agent s)
      \<and> state s \<noteq> [] \<and> list_all isword (state s)
      \<and> user_request s \<noteq> [] \<and> strip (user_request s) = user_request s
      \<and> \<not> contains ''## '' (user_request s)
      \<and> list_all phase_ok (phases s)
      \<and> (phases s \<noteq> [] \<or> \<not> contains ''## Phases'' (work_log s))
      \<and> strip (work_log s) = work_log s
      \<and> \<not> contains ''\<newline>## '' (work_log s))"

text \<open>
  Notes that keep the work log in that form: they do not end in whitespace, have no line
  that starts with \<^verbatim>\<open>## \<close>, and are not empty.
\<close>

definition notes_ok :: "string \<Rightarrow> bool" where
  "notes_ok notes =
     (notes \<noteq> [] \<and> rstrip notes = notes \<and> \<not> prefix ''## '' notes
      \<and> \<not> contains ''\<newline>## '' notes)"

section \<open>Example sessions and documents\<close>

text \<open>The scenario of the specification: three phases, the first complete.\<close>

definition demo :: session where
  "demo = \<lparr>name = ''demo'', phase = 2, total_phases = 3, current_agent = ''b'',
            state = ''pending'', user_request = ''do it'',
            phases = [\<lparr>number = 1, complete = True, agent = ''a'', description = ''x''\<rparr>,
                      \<lparr>number = 2, complete = False, agent = ''b'', description = ''y''\<rparr>,
                      \<lparr>number = 3, complete = False, agent = ''c'', description = ''z''\<rparr>],
            work_log = ''(agents will update this)''\<rparr>"

text \<open>A document with a phase list only.\<close>

definition one_phase_doc :: string where
  "one_phase_doc = ''## Phases\<newline>1. [ ] a - b\<newline>''"

text \<open>A document without phases, and one whose state reads complete over an open phase.\<close>

definition no_phases_doc :: string where
  "no_phases_doc = ''## Status\<newline>- State: pending\<newline>''"

definition complete_state_doc :: string where
  "complete_state_doc =
     ''## Status\<newline>- State: complete\<newline>\<newline>## Phases\<newline>1. [ ] a - b\<newline>''"

text \<open>A document whose phases are not in the order of their numbers, and its session.\<close>

definition unordered_doc :: string where
  "unordered_doc =
     ''# Session: demo\<newline>\<newline>## Status\<newline>- Phase: 1 of 3\<newline>''
     @ ''- Current Agent: a\<newline>- State: pending\<newline>\<newline>''
     @ ''## User Request\<newline>do it\<newline>\<newline>''
     @ ''## Phases\<newline>1. [ ] a - x\<newline>3. [ ] c - z\<newline>2. [ ] b - y\<newline>\<newline>''
     @ ''## Work Log\<newline>(agents will update this)\<newline>''"

definition unordered :: session where
  "unordered = \<lparr>name = ''demo'', phase = 1, total_phases = 3, current_agent = ''a'',
            state = ''pending'', user_request = ''do it'',
            phases = [\<lparr>number = 1, complete = False, agent = ''a'', description = ''x''\<rparr>,
                      \<lparr>number = 3, complete = False, agent = ''c'', description = ''z''\<rparr>,
                      \<lparr>number = 2, complete = False, agent = ''b'', description = ''y''\<rparr>],
            work_log = ''(agents will update this)''\<rparr>"

text \<open>
  A phase list with a line that is not a phase, a project whose registry has the first
  section only, and a project without a registry.
\<close>

definition broken_list_doc :: string where
  "broken_list_doc =
     ''## Phases\<newline>1. [x] a - x\<newline>oops\<newline>2. [ ] b - y\<newline>''"

definition broken_registry_project :: project where
  "broken_registry_project =
     \<lparr>root = ''/work/app'', claude_dir = True,
      agents_dir = Some [(''AGENTS.md'', Some ''## Agent Registry'')],
      tasks_dir = True\<rparr>"

definition no_registry_project :: project where
  "no_registry_project =
     \<lparr>root = ''/work/app'', claude_dir = True, agents_dir = Some [], tasks_dir = True\<rparr>"

section \<open>Facts about the text functions\<close>

lemma contains_sublist: "contains sub s = sublist sub s"
  by (induction s) (auto simp: sublist_Cons_right)

lemma contains_append_right: "contains sub y \<Longrightarrow> contains sub (x @ y)"
  unfolding contains_sublist sublist_def by (metis append.assoc)

lemma contains_append_left: "contains sub x \<Longrightarrow> contains sub (x @ y)"
  unfolding contains_sublist sublist_def by (metis append.assoc)

declare str_nat.simps [simp del]

declare lines_while.simps [simp del]

lemma digit_char_isdigit: "d < 10 \<Longrightarrow> isdigit (digit_char d)"
proof -
  assume "d < 10"
  then have "d \<in> {0,1,2,3,4,5,6,7,8,9}" by auto
  then show ?thesis by (auto simp: digit_char_def isdigit_def)
qed

lemma digit_val_digit_char: "d < 10 \<Longrightarrow> digit_val (digit_char d) = d"
proof -
  assume "d < 10"
  then have "d \<in> {0,1,2,3,4,5,6,7,8,9}" by auto
  then show ?thesis by (auto simp: digit_char_def digit_val_def)
qed

lemma str_nat_digits: "\<forall>c\<in>set (str_nat n). isdigit c"
proof (induction n rule: str_nat.induct)
  case (1 n)
  show ?case
  proof (cases "n < 10")
    case True
    then show ?thesis by (subst str_nat.simps) (simp add: digit_char_isdigit)
  next
    case False
    with 1 have "\<forall>c\<in>set (str_nat (n div 10)). isdigit c" by simp
    moreover have "isdigit (digit_char (n mod 10))" by (simp add: digit_char_isdigit)
    ultimately show ?thesis using False by (subst str_nat.simps) simp
  qed
qed

lemma str_nat_nonempty: "str_nat n \<noteq> []"
  by (subst str_nat.simps) simp

lemma foldl_digits_str_nat:
  "foldl (\<lambda>a c. 10 * a + digit_val c) 0 (str_nat n) = n"
proof (induction n rule: str_nat.induct)
  case (1 n)
  show ?case
  proof (cases "n < 10")
    case True
    then show ?thesis by (subst str_nat.simps) (simp add: digit_val_digit_char)
  next
    case False
    with 1 have "foldl (\<lambda>a c. 10 * a + digit_val c) 0 (str_nat (n div 10)) = n div 10" by simp
    then show ?thesis using False
      by (subst str_nat.simps) (simp add: digit_val_digit_char)
  qed
qed

lemma int_of_digits_str_nat: "int_of_digits (str_nat n) = int n"
  by (simp add: int_of_digits_def foldl_digits_str_nat)

lemma digits_us_digits: "ds \<noteq> [] \<Longrightarrow> \<forall>c\<in>set ds. isdigit c \<Longrightarrow> digits_us ds"
proof (induction ds rule: digits_us.induct)
  case 1
  then show ?case by simp
next
  case (2 c)
  then show ?case by simp
next
  case (3 c d r)
  then have "d \<noteq> CHR ''_''" by (auto simp: isdigit_def)
  with 3 show ?case by simp
qed

lemma isdigit_chars:
  "isdigit c \<Longrightarrow> c \<noteq> CHR ''_'' \<and> c \<noteq> CHR ''-'' \<and> c \<noteq> CHR ''+'' \<and> c \<noteq> CHR ''.''
     \<and> c \<noteq> CHR ''/'' \<and> \<not> int_space c \<and> \<not> isspace c \<and> c \<noteq> CHR 0x0A \<and> c \<noteq> CHR ''#''"
  by (auto simp: isdigit_def int_space_def isspace_def)

lemma py_int_digits:
  assumes "ds \<noteq> []" "\<forall>c\<in>set ds. isdigit c"
  shows "py_int ds = Some (int_of_digits ds)"
proof -
  obtain c r where ds: "ds = c # r" using assms(1) by (cases ds) auto
  have "last ds \<in> set ds" using assms(1) by simp
  then have l: "\<not> int_space (last ds)" using assms(2) isdigit_chars by blast
  have h: "\<not> int_space c" using assms(2) ds isdigit_chars by auto
  have "dropWhile int_space (rev ds) = rev ds"
    using l assms(1) by (cases "rev ds") (auto simp: last_rev[symmetric] simp del: last.simps)
  then have t: "dropWhile int_space (rev (dropWhile int_space (rev ds))) = ds"
    using h ds by simp
  have f: "filter (\<lambda>c. c \<noteq> CHR ''_'') ds = ds"
    using assms(2) isdigit_chars by (auto simp: filter_id_conv)
  have "c \<noteq> CHR ''-''" "c \<noteq> CHR ''+''" using assms(2) ds isdigit_chars by auto
  then show ?thesis
    using t f ds digits_us_digits[OF assms] by (simp add: py_int_def)
qed

lemma split_on_no_sep: "sep \<notin> set s \<Longrightarrow> split_on sep s = [s]"
  by (induction s) auto

lemma split_on_append_sep:
  "sep \<notin> set a \<Longrightarrow> split_on sep (a @ sep # b) = a # split_on sep b"
  by (induction a) auto

lemma path_name_plain: "CHR ''/'' \<notin> set p \<Longrightarrow> path_name p = p"
proof -
  assume "CHR ''/'' \<notin> set p"
  then have "\<forall>x\<in>set (rev p). x \<noteq> CHR ''/''" by auto
  then have "takeWhile (\<lambda>c. c \<noteq> CHR ''/'') (rev p) = rev p"
    by (simp only: takeWhile_eq_all_conv)
  then show ?thesis unfolding path_name_def by (simp only: rev_rev_ident)
qed

lemma path_stem_md:
  assumes "CHR ''/'' \<notin> set b" "b \<noteq> []"
  shows "path_stem (b @ ''.md'') = b"
proof -
  have n: "path_name (b @ ''.md'') = b @ ''.md''" using assms(1) by (simp add: path_name_plain)
  have "length b > 0" using assms(2) by simp
  then show ?thesis by (simp add: path_stem_def n Let_def)
qed

section \<open>The registry: validation and generation\<close>

lemma search_ci_append_right: "search_ci lit y \<Longrightarrow> search_ci lit (x @ y)"
  by (simp add: search_ci_def contains_append_right)

lemma search_ci_append_left: "search_ci lit x \<Longrightarrow> search_ci lit (x @ y)"
  by (simp add: search_ci_def contains_append_left)

lemma validate_agents_md_unfold:
  "validate_agents_md c =
     (let issues =
        (if search_ci ''Agent Registry'' c \<or> search_ci ''## Agents'' c then []
         else [''Missing section: Agent Registry''])
        @ (if search_ci ''Ownership Matrix'' c then [] else [''Missing section: Ownership Matrix''])
        @ (if search_ci ''Routing Table'' c then [] else [''Missing section: Routing Table''])
      in (issues = [], issues))"
  by (simp add: validate_agents_md_def required_sections_def Let_def)

lemma has_registry: "search_ci ''Agent Registry'' (''\<newline>---\<newline>\<newline>## Agent Registry\<newline>\<newline>'' @ r)"
  by (rule search_ci_append_left) (simp add: search_ci_def lower_def)

lemma has_ownership: "search_ci ''Ownership Matrix'' (''\<newline>\<newline>---\<newline>\<newline>## Ownership Matrix\<newline>'' @ r)"
  by (rule search_ci_append_left) (simp add: search_ci_def lower_def)

lemma has_routing: "search_ci ''Routing Table'' (''\<newline>\<newline>---\<newline>\<newline>## Routing Table\<newline>'' @ r)"
  by (rule search_ci_append_left) (simp add: search_ci_def lower_def)

lemma has_ownership_min: "search_ci ''Ownership Matrix'' (''\<newline>## Ownership Matrix\<newline>\<newline>'' @ r)"
  by (rule search_ci_append_left) (simp add: search_ci_def lower_def)

lemma has_routing_min: "search_ci ''Routing Table'' (''\<newline>## Routing Table\<newline>\<newline>'' @ r)"
  by (rule search_ci_append_left) (simp add: search_ci_def lower_def)

lemma generate_has_registry: "search_ci ''Agent Registry'' (generate_agents_md agents project_name)"
  unfolding generate_agents_md_def
  by (intro search_ci_append_right has_registry)

lemma generate_has_ownership: "search_ci ''Ownership Matrix'' (generate_agents_md agents project_name)"
  unfolding generate_agents_md_def
  by (intro search_ci_append_right has_ownership)

lemma generate_has_routing: "search_ci ''Routing Table'' (generate_agents_md agents project_name)"
  unfolding generate_agents_md_def
  by (intro search_ci_append_right has_routing)

lemma minimal_has_registry: "search_ci ''Agent Registry'' (generate_minimal_agents_md project_name)"
  unfolding generate_minimal_agents_md_def
  by (intro search_ci_append_right has_registry)

lemma minimal_has_ownership: "search_ci ''Ownership Matrix'' (generate_minimal_agents_md project_name)"
  unfolding generate_minimal_agents_md_def
  by (intro search_ci_append_right has_ownership_min)

lemma minimal_has_routing: "search_ci ''Routing Table'' (generate_minimal_agents_md project_name)"
  unfolding generate_minimal_agents_md_def
  by (intro search_ci_append_right has_routing_min)

text \<open>
  Claim C9: for every list of descriptors and every project name, the document of
  \<^const>\<open>generate_agents_md\<close> passes \<^const>\<open>validate_agents_md\<close> with no issue, and so does
  the document of \<^const>\<open>generate_minimal_agents_md\<close>; the empty list of descriptors is
  one of the lists.
\<close>

theorem generated_registry_validates:
  "validate_agents_md (generate_agents_md agents project_name) = (True, [])
   \<and> validate_agents_md (generate_minimal_agents_md project_name) = (True, [])"
  by (simp add: validate_agents_md_unfold generate_has_registry generate_has_ownership
      generate_has_routing minimal_has_registry minimal_has_ownership minimal_has_routing)

text \<open>
  Claim C6: \<^const>\<open>validate_agents_md\<close> checks each of the three required sections on its
  own and lists every absent one, in the order Agent Registry, Ownership Matrix, Routing
  Table; the flag is true exactly when the list is empty; and a document that has the
  first section and misses the other two gets the flag false and the two issues that
  name them.
\<close>

theorem validate_agents_md_lists_all:
  "snd (validate_agents_md c) =
     (if search_ci ''Agent Registry'' c \<or> search_ci ''## Agents'' c then []
      else [''Missing section: Agent Registry''])
     @ (if search_ci ''Ownership Matrix'' c then [] else [''Missing section: Ownership Matrix''])
     @ (if search_ci ''Routing Table'' c then [] else [''Missing section: Routing Table''])
   \<and> fst (validate_agents_md c) = (snd (validate_agents_md c) = [])
   \<and> ((search_ci ''Agent Registry'' c \<or> search_ci ''## Agents'' c)
        \<and> \<not> search_ci ''Ownership Matrix'' c \<and> \<not> search_ci ''Routing Table'' c
      \<longrightarrow> validate_agents_md c
          = (False, [''Missing section: Ownership Matrix'', ''Missing section: Routing Table'']))"
  by (simp add: validate_agents_md_unfold Let_def)

text \<open>The scenario of the specification: a document with the Agent Registry heading only.\<close>

lemma registry_only_sections:
  "search_ci ''Agent Registry'' ''## Agent Registry''"
  "\<not> search_ci ''Ownership Matrix'' ''## Agent Registry''"
  "\<not> search_ci ''Routing Table'' ''## Agent Registry''"
  by (simp_all add: search_ci_def lower_def)

lemma validate_registry_only:
  "validate_agents_md ''## Agent Registry''
     = (False, [''Missing section: Ownership Matrix'', ''Missing section: Routing Table''])"
  by (simp add: validate_agents_md_unfold registry_only_sections)

theorem validate_agents_md_lists_all_witness:
  "search_ci ''Agent Registry'' ''## Agent Registry''
   \<and> \<not> search_ci ''Ownership Matrix'' ''## Agent Registry''
   \<and> \<not> search_ci ''Routing Table'' ''## Agent Registry''
   \<and> validate_agents_md ''## Agent Registry''
       = (False, [''Missing section: Ownership Matrix'', ''Missing section: Routing Table''])"
  using registry_only_sections validate_agents_md_lists_all [of "''## Agent Registry''"]
  by blast

section \<open>Evaluating the decoder on the examples\<close>

lemmas str_eval = str_int_def str_nat.simps digit_char_def

lemmas parse_eval = parse_session_def status_at_def isspace_def isdigit_def isword_def
  break_line_def status_line_def session_name_line_def phase_of_at_def current_agent_at_def
  state_at_def user_request_at_def numbered_line_def phases_at_def phase_line_def
  work_log_at_def strip_def lstrip_def rstrip_def int_of_digits_def digit_val_def Let_def
  lines_while.simps

lemma parse_one_phase_doc:
  "parse_session one_phase_doc =
     \<lparr>name = [], phase = 0, total_phases = 0, current_agent = [], state = ''unknown'',
      user_request = [],
      phases = [\<lparr>number = 1, complete = False, agent = ''a'', description = ''b''\<rparr>],
      work_log = []\<rparr>"
  by (simp add: one_phase_doc_def parse_eval)

lemma parse_no_phases_doc:
  "parse_session no_phases_doc =
     \<lparr>name = [], phase = 0, total_phases = 0, current_agent = [], state = ''pending'',
      user_request = [], phases = [], work_log = []\<rparr>"
  by (simp add: no_phases_doc_def parse_eval)

lemma parse_complete_state_doc:
  "parse_session complete_state_doc =
     \<lparr>name = [], phase = 0, total_phases = 0, current_agent = [], state = ''complete'',
      user_request = [],
      phases = [\<lparr>number = 1, complete = False, agent = ''a'', description = ''b''\<rparr>],
      work_log = []\<rparr>"
  by (simp add: complete_state_doc_def parse_eval)

lemma markers_no_phases_doc: "findall_markers no_phases_doc = []"
  by (simp add: no_phases_doc_def marker_at_def isdigit_def)

lemma parse_unordered_doc: "parse_session unordered_doc = unordered"
  by (simp add: unordered_doc_def unordered_def parse_eval)

lemma parse_broken_list_doc:
  "parse_session broken_list_doc =
     \<lparr>name = [], phase = 0, total_phases = 0, current_agent = [], state = ''unknown'',
      user_request = [],
      phases = [\<lparr>number = 1, complete = True, agent = ''a'', description = ''x''\<rparr>],
      work_log = []\<rparr>"
  by (simp add: broken_list_doc_def parse_eval)

lemma parse_phases_broken_list_doc:
  "parse_phases broken_list_doc =
     [\<lparr>number = 1, complete = True, agent = ''a'', description = ''x''\<rparr>,
      \<lparr>number = 2, complete = False, agent = ''b'', description = ''y''\<rparr>]"
  by (simp add: broken_list_doc_def parse_phases_def parse_eval)

section \<open>Marking a phase complete\<close>

lemma mark_first_None: "(mark_first k ps = None) = (\<forall>p\<in>set ps. number p \<noteq> k)"
  by (induction ps) (auto split: option.splits)

lemma mark_first_Some:
  "mark_first k ps = Some (ps', a) \<Longrightarrow>
     \<exists>i<length ps. number (ps ! i) = k \<and> (\<forall>j<i. number (ps ! j) \<noteq> k)
       \<and> ps' = ps[i := (ps ! i)\<lparr>complete := True\<rparr>] \<and> a = agent (ps ! i)"
proof (induction ps arbitrary: ps' a)
  case Nil
  then show ?case by simp
next
  case (Cons p ps)
  show ?case
  proof (cases "number p = k")
    case True
    with Cons.prems have "ps' = p\<lparr>complete := True\<rparr> # ps" and "a = agent p" by auto
    with True show ?thesis by (intro exI[of _ 0]) simp
  next
    case False
    with Cons.prems obtain qs where q: "mark_first k ps = Some (qs, a)" and p': "ps' = p # qs"
      by (auto split: option.splits)
    from Cons.IH[OF q] obtain i where i: "i < length ps" "number (ps ! i) = k"
      "\<forall>j<i. number (ps ! j) \<noteq> k" "qs = ps[i := (ps ! i)\<lparr>complete := True\<rparr>]" "a = agent (ps ! i)"
      by blast
    have "\<forall>j<Suc i. number ((p # ps) ! j) \<noteq> k"
    proof (intro allI impI)
      fix j assume "j < Suc i"
      then show "number ((p # ps) ! j) \<noteq> k" using False i(3) by (cases j) auto
    qed
    with i p' show ?thesis by (intro exI[of _ "Suc i"]) simp
  qed
qed

text \<open>
  Claim C3: marking phase \<open>k\<close> fails with \<^const>\<open>PhaseNotFound\<close> when no phase has the
  number \<open>k\<close>. When some phase has it, the first such phase gets its flag set; then, if
  a phase with a false flag remains, the phase counter and the current agent are those of
  the first such phase and the state is \<^verbatim>\<open>pending\<close>, otherwise the state is \<^verbatim>\<open>complete\<close>
  and the current agent is \<^verbatim>\<open>none\<close>. Notes that are not empty add an entry under the
  marked phase's agent: the entry is the whole log when the log was empty or the
  placeholder, and is appended after a blank line otherwise.
\<close>

theorem mark_phase_complete_effect:
  "((\<forall>p\<in>set (phases s). number p \<noteq> k) \<longrightarrow>
      mark_phase_complete s k notes = Inl (PhaseNotFound k))
   \<and> ((\<exists>p\<in>set (phases s). number p = k) \<longrightarrow>
      (\<exists>s' i. mark_phase_complete s k notes = Inr s'
         \<and> i < length (phases s) \<and> number (phases s ! i) = k
         \<and> (\<forall>j<i. number (phases s ! j) \<noteq> k)
         \<and> phases s' = (phases s)[i := (phases s ! i)\<lparr>complete := True\<rparr>]
         \<and> (case find (\<lambda>p. \<not> complete p) (phases s') of
               Some np \<Rightarrow> phase s' = number np \<and> current_agent s' = agent np
                          \<and> state s' = ''pending''
             | None \<Rightarrow> state s' = ''complete'' \<and> current_agent s' = ''none'')
         \<and> work_log s' =
             (if notes = [] then work_log s
              else if work_log s = [] \<or> work_log s = placeholder
              then ''### Phase '' @ str_int k @ '' ('' @ agent (phases s ! i) @ '')\<newline>'' @ notes
              else work_log s @ ''\<newline>\<newline>### Phase '' @ str_int k @ '' (''
                   @ agent (phases s ! i) @ '')\<newline>'' @ notes)
         \<and> name s' = name s \<and> total_phases s' = total_phases s
         \<and> user_request s' = user_request s))"
proof (intro conjI impI)
  assume "\<forall>p\<in>set (phases s). number p \<noteq> k"
  then have "mark_first k (phases s) = None" by (simp add: mark_first_None)
  then show "mark_phase_complete s k notes = Inl (PhaseNotFound k)"
    by (simp add: mark_phase_complete_def)
next
  assume "\<exists>p\<in>set (phases s). number p = k"
  then have "mark_first k (phases s) \<noteq> None" by (simp add: mark_first_None)
  then obtain ps a where m: "mark_first k (phases s) = Some (ps, a)" by auto
  from mark_first_Some[OF m] obtain i where i: "i < length (phases s)"
    "number (phases s ! i) = k" "\<forall>j<i. number (phases s ! j) \<noteq> k"
    "ps = (phases s)[i := (phases s ! i)\<lparr>complete := True\<rparr>]" "a = agent (phases s ! i)"
    by blast
  obtain s' where s': "mark_phase_complete s k notes = Inr s'"
    using m by (simp add: mark_phase_complete_def Let_def)
  have ph: "phases s' = ps"
    using m s' by (auto simp: mark_phase_complete_def Let_def split: option.splits if_splits)
  have st: "(case find (\<lambda>p. \<not> complete p) (phases s') of
               Some np \<Rightarrow> phase s' = number np \<and> current_agent s' = agent np
                          \<and> state s' = ''pending''
             | None \<Rightarrow> state s' = ''complete'' \<and> current_agent s' = ''none'')"
    using m s' by (auto simp: mark_phase_complete_def Let_def split: option.splits if_splits)
  have wl: "work_log s' =
             (if notes = [] then work_log s
              else if work_log s = [] \<or> work_log s = placeholder
              then ''### Phase '' @ str_int k @ '' ('' @ agent (phases s ! i) @ '')\<newline>'' @ notes
              else work_log s @ ''\<newline>\<newline>### Phase '' @ str_int k @ '' (''
                   @ agent (phases s ! i) @ '')\<newline>'' @ notes)"
    using m s' i(5)
    by (auto simp: mark_phase_complete_def Let_def log_entry_def split: option.splits if_splits)
  have rest: "name s' = name s \<and> total_phases s' = total_phases s
         \<and> user_request s' = user_request s"
    using m s' by (auto simp: mark_phase_complete_def Let_def split: option.splits if_splits)
  from s' i ph st wl rest
  show "\<exists>s' i. mark_phase_complete s k notes = Inr s'
         \<and> i < length (phases s) \<and> number (phases s ! i) = k
         \<and> (\<forall>j<i. number (phases s ! j) \<noteq> k)
         \<and> phases s' = (phases s)[i := (phases s ! i)\<lparr>complete := True\<rparr>]
         \<and> (case find (\<lambda>p. \<not> complete p) (phases s') of
               Some np \<Rightarrow> phase s' = number np \<and> current_agent s' = agent np
                          \<and> state s' = ''pending''
             | None \<Rightarrow> state s' = ''complete'' \<and> current_agent s' = ''none'')
         \<and> work_log s' =
             (if notes = [] then work_log s
              else if work_log s = [] \<or> work_log s = placeholder
              then ''### Phase '' @ str_int k @ '' ('' @ agent (phases s ! i) @ '')\<newline>'' @ notes
              else work_log s @ ''\<newline>\<newline>### Phase '' @ str_int k @ '' (''
                   @ agent (phases s ! i) @ '')\<newline>'' @ notes)
         \<and> name s' = name s \<and> total_phases s' = total_phases s
         \<and> user_request s' = user_request s"
    by blast
qed

theorem mark_phase_complete_effect_witness:
  "mark_phase_complete demo 7 ''done'' = Inl (PhaseNotFound 7)
   \<and> mark_phase_complete demo 2 ''done''
       = Inr (demo\<lparr>phase := 3, current_agent := ''c'',
                    phases := [\<lparr>number = 1, complete = True, agent = ''a'', description = ''x''\<rparr>,
                      \<lparr>number = 2, complete = True, agent = ''b'', description = ''y''\<rparr>,
                      \<lparr>number = 3, complete = False, agent = ''c'', description = ''z''\<rparr>],
                    work_log := ''### Phase 2 (b)\<newline>done''\<rparr>)"
  using mark_phase_complete_effect [of demo 7 "''done''"]
    mark_phase_complete_effect [of demo 2 "''done''"]
  by (simp add: demo_def mark_phase_complete_def placeholder_def log_entry_def str_eval)

section \<open>An error leaves the session file alone\<close>

text \<open>
  Claim C10: whenever \<^const>\<open>session_mark_phase_complete\<close> answers with an error it leaves
  the session file as it was: without a session file the answer is \<^const>\<open>NoSessionFile\<close>
  and there is still no file, and when no parsed phase has the number the answer is
  \<^const>\<open>PhaseNotFound\<close> and the text of the file is unchanged.
\<close>

theorem mark_complete_error_keeps_file:
  "(fst (session_mark_phase_complete file k notes) = Inl e \<longrightarrow>
      snd (session_mark_phase_complete file k notes) = file)
   \<and> session_mark_phase_complete None k notes = (Inl NoSessionFile, None)
   \<and> ((\<forall>p\<in>set (phases (parse_session content)). number p \<noteq> k) \<longrightarrow>
        session_mark_phase_complete (Some content) k notes
          = (Inl (PhaseNotFound k), Some content))"
proof (intro conjI impI)
  assume "fst (session_mark_phase_complete file k notes) = Inl e"
  then show "snd (session_mark_phase_complete file k notes) = file"
    by (auto simp: session_mark_phase_complete_def split: option.splits sum.splits)
next
  show "session_mark_phase_complete None k notes = (Inl NoSessionFile, None)"
    by (simp add: session_mark_phase_complete_def)
next
  assume "\<forall>p\<in>set (phases (parse_session content)). number p \<noteq> k"
  then have "mark_first k (phases (parse_session content)) = None"
    by (simp add: mark_first_None)
  then show "session_mark_phase_complete (Some content) k notes
          = (Inl (PhaseNotFound k), Some content)"
    by (simp add: session_mark_phase_complete_def mark_phase_complete_def)
qed

theorem mark_complete_error_keeps_file_witness:
  "session_mark_phase_complete (Some one_phase_doc) 2 ''done''
     = (Inl (PhaseNotFound 2), Some one_phase_doc)
   \<and> fst (session_mark_phase_complete None 2 ''done'') = Inl NoSessionFile
   \<and> snd (session_mark_phase_complete None 2 ''done'') = None"
  using mark_complete_error_keeps_file [of None 2 "''done''" NoSessionFile one_phase_doc]
  by (simp add: parse_one_phase_doc)

section \<open>Is the session complete\<close>

text \<open>
  Claim C2, evaluated: on a document with no phase and the state \<^verbatim>\<open>pending\<close>,
  \<^const>\<open>session_is_complete\<close> answers complete, where \<^const>\<open>is_session_complete\<close> of the
  orchestrator answers not complete; on a document whose state reads \<^verbatim>\<open>complete\<close> over an
  open phase, \<^const>\<open>session_is_complete\<close> answers not complete, where
  \<^const>\<open>is_session_complete\<close> answers complete.
\<close>

theorem session_is_complete_disagrees:
  "phases (parse_session no_phases_doc) = []
   \<and> state (parse_session no_phases_doc) = ''pending''
   \<and> session_is_complete (Some no_phases_doc)
       = Inr \<lparr>is_complete = True, completed_count = 0, total_count = 0, remaining = []\<rparr>
   \<and> is_session_complete (Some no_phases_doc) = False
   \<and> state (parse_session complete_state_doc) = ''complete''
   \<and> session_is_complete (Some complete_state_doc)
       = Inr \<lparr>is_complete = False, completed_count = 0, total_count = 1,
              remaining = [''1. a - b'']\<rparr>
   \<and> is_session_complete (Some complete_state_doc) = True"
proof -
  have a: "\<not> contains ''State: complete'' no_phases_doc"
    by (simp add: no_phases_doc_def)
  have b: "contains ''State: complete'' complete_state_doc"
    by (simp add: complete_state_doc_def)
  show ?thesis
    by (simp add: parse_no_phases_doc parse_complete_state_doc session_is_complete_def
        is_complete_of_def is_session_complete_def a b markers_no_phases_doc str_eval)
qed

section \<open>The next phase\<close>

lemma find_first_index:
  "i < length ps \<Longrightarrow> P (ps ! i) \<Longrightarrow> (\<forall>j<i. \<not> P (ps ! j)) \<Longrightarrow> find P ps = Some (ps ! i)"
proof (induction ps arbitrary: i)
  case Nil
  then show ?case by simp
next
  case (Cons p ps)
  show ?case
  proof (cases i)
    case 0
    with Cons.prems show ?thesis by simp
  next
    case (Suc n)
    with Cons.prems have "\<not> P p" by auto
    moreover have "find P ps = Some (ps ! n)"
      using Cons.prems Suc by (intro Cons.IH) auto
    ultimately show ?thesis using Suc by simp
  qed
qed

lemma find_sorted_least:
  "sorted (map f ps) \<Longrightarrow> find P ps = Some p \<Longrightarrow>
     p \<in> set ps \<and> P p \<and> (\<forall>q\<in>set ps. P q \<longrightarrow> f p \<le> f q)"
proof (induction ps)
  case Nil
  then show ?case by simp
next
  case (Cons a ps)
  show ?case
  proof (cases "P a")
    case True
    with Cons.prems show ?thesis by auto
  next
    case False
    with Cons.prems have "find P ps = Some p" and "sorted (map f ps)" by auto
    with Cons.IH have "p \<in> set ps \<and> P p \<and> (\<forall>q\<in>set ps. P q \<longrightarrow> f p \<le> f q)" by blast
    with False show ?thesis by auto
  qed
qed

lemma mark_first_numbers:
  "mark_first k ps = Some (ps', a) \<Longrightarrow> map number ps' = map number ps"
  by (induction ps arbitrary: ps' a) (auto split: if_splits option.splits)

lemma mark_phase_complete_numbers:
  "mark_phase_complete s k notes = Inr s' \<Longrightarrow> map number (phases s') = map number (phases s)"
  by (auto simp: mark_phase_complete_def Let_def dest: mark_first_numbers
      split: option.splits if_splits)

text \<open>
  Claim C4, as amended: \<^const>\<open>get_next_phase\<close> and \<^const>\<open>get_current_phase\<close> return the
  first phase in the order of the document whose flag is false, and none when every flag
  is true (the empty list included). After \<^const>\<open>mark_phase_complete\<close> on a session whose
  phase numbers do not decrease along the document, that phase has the lowest number
  among the phases whose flag is false.
\<close>

theorem get_next_phase_first_open:
  "((\<forall>p\<in>set (phases s). complete p) \<longrightarrow> get_next_phase s = None)
   \<and> (i < length (phases s) \<and> \<not> complete (phases s ! i) \<and> (\<forall>j<i. complete (phases s ! j)) \<longrightarrow>
        get_next_phase s =
          Some \<lparr>phase_number = number (phases s ! i),
                next_phase_agent = agent (phases s ! i),
                next_phase_description = description (phases s ! i),
                depends_on =
                  map agent (filter (\<lambda>p. complete p \<and> number p < number (phases s ! i))
                    (phases s)),
                next_user_request = user_request s\<rparr>)
   \<and> ((\<forall>p\<in>set (parse_phases content). complete p) \<longrightarrow>
        get_current_phase (Some content) = None)
   \<and> (n < length (parse_phases content) \<and> \<not> complete (parse_phases content ! n)
        \<and> (\<forall>j<n. complete (parse_phases content ! j)) \<longrightarrow>
        get_current_phase (Some content) = Some (parse_phases content ! n))
   \<and> (sorted (map number (phases s)) \<and> mark_phase_complete s k notes = Inr s' \<longrightarrow>
        (case get_next_phase s' of
           None \<Rightarrow> list_all complete (phases s')
         | Some r \<Rightarrow>
             \<exists>p\<in>set (phases s'). \<not> complete p \<and> number p = phase_number r
               \<and> agent p = next_phase_agent r
               \<and> (\<forall>q\<in>set (phases s'). \<not> complete q \<longrightarrow> phase_number r \<le> number q)))"
proof (intro conjI impI)
  assume "\<forall>p\<in>set (phases s). complete p"
  then have "find (\<lambda>p. \<not> complete p) (phases s) = None" by (simp add: find_None_iff)
  then show "get_next_phase s = None" by (simp add: get_next_phase_def)
next
  assume a: "i < length (phases s) \<and> \<not> complete (phases s ! i) \<and> (\<forall>j<i. complete (phases s ! j))"
  then have "find (\<lambda>p. \<not> complete p) (phases s) = Some (phases s ! i)"
    by (intro find_first_index) auto
  then show "get_next_phase s =
          Some \<lparr>phase_number = number (phases s ! i),
                next_phase_agent = agent (phases s ! i),
                next_phase_description = description (phases s ! i),
                depends_on =
                  map agent (filter (\<lambda>p. complete p \<and> number p < number (phases s ! i))
                    (phases s)),
                next_user_request = user_request s\<rparr>"
    by (simp add: get_next_phase_def)
next
  assume "\<forall>p\<in>set (parse_phases content). complete p"
  then have "find (\<lambda>p. \<not> complete p) (parse_phases content) = None"
    by (simp add: find_None_iff)
  then show "get_current_phase (Some content) = None" by (simp add: get_current_phase_def)
next
  assume a: "n < length (parse_phases content) \<and> \<not> complete (parse_phases content ! n)
        \<and> (\<forall>j<n. complete (parse_phases content ! j))"
  then have "find (\<lambda>p. \<not> complete p) (parse_phases content) = Some (parse_phases content ! n)"
    by (intro find_first_index) auto
  then show "get_current_phase (Some content) = Some (parse_phases content ! n)"
    by (simp add: get_current_phase_def)
next
  assume a: "sorted (map number (phases s)) \<and> mark_phase_complete s k notes = Inr s'"
  then have srt: "sorted (map number (phases s'))"
    by (auto dest: mark_phase_complete_numbers)
  show "case get_next_phase s' of
           None \<Rightarrow> list_all complete (phases s')
         | Some r \<Rightarrow>
             \<exists>p\<in>set (phases s'). \<not> complete p \<and> number p = phase_number r
               \<and> agent p = next_phase_agent r
               \<and> (\<forall>q\<in>set (phases s'). \<not> complete q \<longrightarrow> phase_number r \<le> number q)"
  proof (cases "find (\<lambda>p. \<not> complete p) (phases s')")
    case None
    then have "list_all complete (phases s')" by (simp add: find_None_iff list_all_iff)
    with None show ?thesis by (simp add: get_next_phase_def)
  next
    case (Some p)
    from find_sorted_least[OF srt Some]
    have "p \<in> set (phases s') \<and> \<not> complete p
          \<and> (\<forall>q\<in>set (phases s'). \<not> complete q \<longrightarrow> number p \<le> number q)" by simp
    with Some show ?thesis by (auto simp: get_next_phase_def)
  qed
qed

theorem get_next_phase_first_open_witness:
  "get_next_phase (demo\<lparr>phases := map (\<lambda>p. p\<lparr>complete := True\<rparr>) (phases demo)\<rparr>) = None
   \<and> get_next_phase demo =
       Some \<lparr>phase_number = 2, next_phase_agent = ''b'', next_phase_description = ''y'',
             depends_on = [''a''], next_user_request = ''do it''\<rparr>
   \<and> get_current_phase (Some ''1. [x] a - x'') = None
   \<and> get_current_phase (Some one_phase_doc)
       = Some \<lparr>number = 1, complete = False, agent = ''a'', description = ''b''\<rparr>
   \<and> sorted (map number (phases demo))
   \<and> (\<exists>s'. mark_phase_complete demo 2 [] = Inr s'
         \<and> map_option phase_number (get_next_phase s') = Some 3)"
proof -
  have pp1: "parse_phases ''1. [x] a - x''
             = [\<lparr>number = 1, complete = True, agent = ''a'', description = ''x''\<rparr>]"
    by (simp add: parse_phases_def parse_eval)
  have pp2: "parse_phases one_phase_doc
             = [\<lparr>number = 1, complete = False, agent = ''a'', description = ''b''\<rparr>]"
    by (simp add: parse_phases_def one_phase_doc_def parse_eval)
  have m: "mark_phase_complete demo 2 [] = Inr (demo\<lparr>phase := 3, current_agent := ''c'',
                    phases := [\<lparr>number = 1, complete = True, agent = ''a'', description = ''x''\<rparr>,
                      \<lparr>number = 2, complete = True, agent = ''b'', description = ''y''\<rparr>,
                      \<lparr>number = 3, complete = False, agent = ''c'', description = ''z''\<rparr>]\<rparr>)"
    by (simp add: demo_def mark_phase_complete_def)
  show ?thesis
    using get_next_phase_first_open
      [of "demo\<lparr>phases := map (\<lambda>p. p\<lparr>complete := True\<rparr>) (phases demo)\<rparr>" 0
          "''1. [x] a - x''" 0 2 "[]" demo]
      get_next_phase_first_open [of demo 1 one_phase_doc 0 2 "[]"
          "demo\<lparr>phase := 3, current_agent := ''c'',
                    phases := [\<lparr>number = 1, complete = True, agent = ''a'', description = ''x''\<rparr>,
                      \<lparr>number = 2, complete = True, agent = ''b'', description = ''y''\<rparr>,
                      \<lparr>number = 3, complete = False, agent = ''c'', description = ''z''\<rparr>]\<rparr>"]
    by (simp add: pp1 pp2 m) (simp add: demo_def get_next_phase_def get_current_phase_def pp1 pp2)
qed

text \<open>
  Claim C4 as stated fails where the numbers are out of order: in the document with the
  phases 1, 3, 2, after phase 1 is marked the next phase is 3, and phase 2 is open.
\<close>

theorem lowest_numbered_counterexample:
  "parse_session unordered_doc = unordered
   \<and> mark_phase_complete unordered 1 [] =
       Inr (unordered\<lparr>phase := 3, current_agent := ''c'',
             phases := [\<lparr>number = 1, complete = True, agent = ''a'', description = ''x''\<rparr>,
                        \<lparr>number = 3, complete = False, agent = ''c'', description = ''z''\<rparr>,
                        \<lparr>number = 2, complete = False, agent = ''b'', description = ''y''\<rparr>]\<rparr>)
   \<and> get_next_phase (unordered\<lparr>phase := 3, current_agent := ''c'',
             phases := [\<lparr>number = 1, complete = True, agent = ''a'', description = ''x''\<rparr>,
                        \<lparr>number = 3, complete = False, agent = ''c'', description = ''z''\<rparr>,
                        \<lparr>number = 2, complete = False, agent = ''b'', description = ''y''\<rparr>]\<rparr>)
       = Some \<lparr>phase_number = 3, next_phase_agent = ''c'', next_phase_description = ''z'',
               depends_on = [''a''], next_user_request = ''do it''\<rparr>"
  by (simp add: parse_unordered_doc) (simp add: unordered_def mark_phase_complete_def get_next_phase_def)

section \<open>Archiving the session\<close>

lemma str_nat_no: "c \<in> set (str_nat k) \<Longrightarrow> isdigit c"
  using str_nat_digits by blast

lemma archive_number_archive_name: "archive_number (archive_name k) = Some (int k)"
proof -
  have d: "\<forall>c\<in>set (str_nat k). isdigit c" by (rule str_nat_digits)
  have slash: "CHR ''/'' \<notin> set (''session-'' @ str_nat k)"
    using d isdigit_chars by auto
  have stem: "path_stem (archive_name k) = ''session-'' @ str_nat k"
    using path_stem_md[OF slash] by (simp add: archive_name_def)
  have dash: "CHR ''-'' \<notin> set (str_nat k)" using d isdigit_chars by auto
  have sp: "split_on CHR ''-'' (''session-'' @ str_nat k) = [''session'', str_nat k]"
    using split_on_append_sep[of "CHR ''-''" "''session''" "str_nat k"] dash
    by (simp add: split_on_no_sep)
  have ne: "archive_name k \<noteq> ''session-current.md''"
  proof
    assume "archive_name k = ''session-current.md''"
    then have "str_nat k @ ''.md'' = ''current.md''" by (simp add: archive_name_def)
    then have "str_nat k @ ''.md'' = ''current'' @ ''.md''" by simp
    then have "str_nat k = ''current''" by (simp only: append_same_eq)
    then have "isdigit CHR ''c''" using d by simp
    then show False by (simp add: isdigit_def)
  qed
  show ?thesis
    using ne by (simp add: archive_number_def stem split_on_no_sep[OF dash]
        py_int_digits[OF str_nat_nonempty d] int_of_digits_str_nat)
qed

lemma glob_session_archive_name: "glob_session (archive_name k)"
  by (simp add: glob_session_def archive_name_def suffix_def)

lemma max_num_ge: "m \<le> max_num ns m"
proof (induction ns arbitrary: m)
  case Nil
  then show ?case by simp
next
  case (Cons n ns)
  show ?case
  proof (cases "archive_number n")
    case None
    then show ?thesis using Cons.IH by simp
  next
    case (Some v)
    have "m \<le> max m v" by simp
    also have "\<dots> \<le> max_num ns (max m v)" by (rule Cons.IH)
    finally show ?thesis using Some by simp
  qed
qed

lemma max_num_ge_elem:
  "n \<in> set ns \<Longrightarrow> archive_number n = Some v \<Longrightarrow> v \<le> max_num ns m"
proof (induction ns arbitrary: m)
  case Nil
  then show ?case by simp
next
  case (Cons a ns)
  show ?case
  proof (cases "n = a")
    case True
    have "v \<le> max m v" by simp
    also have "\<dots> \<le> max_num ns (max m v)" by (rule max_num_ge)
    finally show ?thesis using True Cons.prems by simp
  next
    case False
    with Cons.prems have "n \<in> set ns" by simp
    with Cons.IH Cons.prems(2) show ?thesis by (cases "archive_number a") auto
  qed
qed

lemma max_num_le:
  "m \<le> b \<Longrightarrow> (\<And>n v. n \<in> set ns \<Longrightarrow> archive_number n = Some v \<Longrightarrow> v \<le> b)
     \<Longrightarrow> max_num ns m \<le> b"
proof (induction ns arbitrary: m)
  case Nil
  then show ?case by simp
next
  case (Cons a ns)
  show ?case
  proof (cases "archive_number a")
    case None
    have "max_num ns m \<le> b"
    proof (rule Cons.IH[OF Cons.prems(1)])
      fix n v assume "n \<in> set ns" "archive_number n = Some v"
      then show "v \<le> b" using Cons.prems(2)[of n v] by simp
    qed
    then show ?thesis using None by simp
  next
    case (Some v)
    then have "v \<le> b" using Cons.prems(2)[of a v] by simp
    then have "max m v \<le> b" using Cons.prems(1) by simp
    then have "max_num ns (max m v) \<le> b"
    proof (rule Cons.IH)
      fix n w assume "n \<in> set ns" "archive_number n = Some w"
      then show "w \<le> b" using Cons.prems(2)[of n w] by simp
    qed
    then show ?thesis using Some by simp
  qed
qed

lemma rename_fresh:
  "new \<notin> fst ` set d \<Longrightarrow>
     rename old new d = map (\<lambda>(n, t). if n = old then (new, t) else (n, t)) d"
proof -
  assume "new \<notin> fst ` set d"
  then have "filter (\<lambda>(n, t). n \<noteq> new) d = d" by (force simp: filter_id_conv)
  then show ?thesis by (simp add: rename_def)
qed

lemma max_num_listed:
  assumes fin: "finite N"
    and known: "\<forall>n\<in>fst ` set d. glob_session n \<longrightarrow>
                  archive_number n = None \<or> (\<exists>k\<in>N. archive_number n = Some (int k))"
    and listed: "\<forall>k\<in>N. \<exists>n\<in>fst ` set d. glob_session n \<and> archive_number n = Some (int k)"
  shows "max_num (filter glob_session (map fst d)) 0 = int (Max (insert 0 N))"
proof (rule antisym)
  show "max_num (filter glob_session (map fst d)) 0 \<le> int (Max (insert 0 N))"
  proof (rule max_num_le)
    show "0 \<le> int (Max (insert 0 N))" by simp
  next
    fix n v assume n: "n \<in> set (filter glob_session (map fst d))" and v: "archive_number n = Some v"
    then obtain k where "k \<in> N" "v = int k" using known by auto
    then show "v \<le> int (Max (insert 0 N))" using fin by simp
  qed
next
  have "Max (insert 0 N) \<in> insert 0 N" using fin by (intro Max_in) auto
  then show "int (Max (insert 0 N)) \<le> max_num (filter glob_session (map fst d)) 0"
  proof
    assume "Max (insert 0 N) = 0"
    then show ?thesis using max_num_ge[of 0] by simp
  next
    assume "Max (insert 0 N) \<in> N"
    then obtain n where "n \<in> fst ` set d" "glob_session n"
      "archive_number n = Some (int (Max (insert 0 N)))" using listed by blast
    then show ?thesis by (intro max_num_ge_elem[of n]) auto
  qed
qed

text \<open>
  Claim C5: without a current session document \<^const>\<open>archive_session\<close> changes nothing.
  With one, when \<open>N\<close> is the set of the numbers that the listed archives carry (in any
  order, with any gaps; names the loop skips carry none), the current document is renamed
  to the archive numbered \<open>Max N + 1\<close>, and to number 1 when \<open>N\<close> is empty; every other
  entry stays. The archive numbered \<open>k\<close> is listed by the pattern and carries the number
  \<open>k\<close>.
\<close>

theorem archive_session_next_slot:
  "(''session-current.md'' \<notin> fst ` set d \<longrightarrow> archive_session d = d)
   \<and> (''session-current.md'' \<in> fst ` set d \<and> finite N
       \<and> (\<forall>n\<in>fst ` set d. glob_session n \<longrightarrow>
             archive_number n = None \<or> (\<exists>k\<in>N. archive_number n = Some (int k)))
       \<and> (\<forall>k\<in>N. \<exists>n\<in>fst ` set d. glob_session n \<and> archive_number n = Some (int k))
      \<longrightarrow> archive_session d =
            map (\<lambda>(n, t). if n = ''session-current.md''
                           then (''session-'' @ str_nat (Max (insert 0 N) + 1) @ ''.md'', t)
                           else (n, t)) d)
   \<and> glob_session (''session-'' @ str_nat k @ ''.md'')
   \<and> archive_number (''session-'' @ str_nat k @ ''.md'') = Some (int k)"
proof (intro conjI impI)
  assume "''session-current.md'' \<notin> fst ` set d"
  then show "archive_session d = d" by (simp add: archive_session_def)
next
  assume a: "''session-current.md'' \<in> fst ` set d \<and> finite N
       \<and> (\<forall>n\<in>fst ` set d. glob_session n \<longrightarrow>
             archive_number n = None \<or> (\<exists>k\<in>N. archive_number n = Some (int k)))
       \<and> (\<forall>k\<in>N. \<exists>n\<in>fst ` set d. glob_session n \<and> archive_number n = Some (int k))"
  let ?M = "Max (insert 0 N)"
  have mx: "max_num (filter glob_session (map fst d)) 0 = int ?M"
    using a by (intro max_num_listed) auto
  have new: "''session-'' @ str_int (int ?M + 1) @ ''.md'' = archive_name (?M + 1)"
    by (simp add: str_int_def archive_name_def nat_add_distrib)
  have fresh: "archive_name (?M + 1) \<notin> fst ` set d"
  proof
    assume "archive_name (?M + 1) \<in> fst ` set d"
    moreover have "glob_session (archive_name (?M + 1))" by (rule glob_session_archive_name)
    moreover have "archive_number (archive_name (?M + 1)) = Some (int (?M + 1))"
      by (rule archive_number_archive_name)
    ultimately have "\<exists>j\<in>N. Some (int (?M + 1)) = Some (int j)"
      using a by (metis option.distinct(1))
    then obtain j where "j \<in> N" "int (?M + 1) = int j" by auto
    then have "j = ?M + 1" by linarith
    with \<open>j \<in> N\<close> have "?M + 1 \<in> N" by simp
    then have "?M + 1 \<le> ?M" using a by (intro Max_ge) auto
    then show False by simp
  qed
  show "archive_session d =
            map (\<lambda>(n, t). if n = ''session-current.md''
                           then (''session-'' @ str_nat (Max (insert 0 N) + 1) @ ''.md'', t)
                           else (n, t)) d"
  proof -
    have cur: "''session-current.md'' \<in> set (map fst d)" using a by simp
    have "archive_session d = rename ''session-current.md'' (archive_name (?M + 1)) d"
      using cur by (simp only: archive_session_def mx new if_not_P not_not)
    also have "\<dots> = map (\<lambda>(n, t). if n = ''session-current.md''
                           then (archive_name (?M + 1), t) else (n, t)) d"
      by (rule rename_fresh[OF fresh])
    finally show ?thesis by (simp only: archive_name_def)
  qed
next
  show "glob_session (''session-'' @ str_nat k @ ''.md'')"
    using glob_session_archive_name[of k] by (simp add: archive_name_def)
next
  show "archive_number (''session-'' @ str_nat k @ ''.md'') = Some (int k)"
    using archive_number_archive_name[of k] by (simp add: archive_name_def)
qed


lemmas archive_eval = archive_session_def rename_def glob_session_def archive_number_def
  path_stem_def path_name_def py_int_def int_space_def isdigit_def int_of_digits_def
  digit_val_def str_eval Let_def suffix_to_prefix

theorem archive_session_next_slot_witness:
  "archive_session [(''session-1.md'', ''one''), (''notes.txt'', ''n'')]
     = [(''session-1.md'', ''one''), (''notes.txt'', ''n'')]
   \<and> archive_session [(''session-3.md'', ''three''), (''notes.txt'', ''n''),
                       (''session-current.md'', ''now''), (''session-1.md'', ''one'')]
     = [(''session-3.md'', ''three''), (''notes.txt'', ''n''),
        (''session-4.md'', ''now''), (''session-1.md'', ''one'')]
   \<and> archive_session [(''session-current.md'', ''now'')] = [(''session-1.md'', ''now'')]"
  using archive_session_next_slot
    [of "[(''session-1.md'', ''one''), (''notes.txt'', ''n'')]" "{}" 0]
    archive_session_next_slot
    [of "[(''session-3.md'', ''three''), (''notes.txt'', ''n''),
          (''session-current.md'', ''now''), (''session-1.md'', ''one'')]" "{1, 3}" 3]
    archive_session_next_slot [of "[(''session-current.md'', ''now'')]" "{}" 1]
  by (simp add: archive_eval)

section \<open>Lines of the phase list that are not phases\<close>

text \<open>
  Claim C8, evaluated: in a phase list whose second line is not a phase,
  \<^const>\<open>parse_session\<close> keeps the first phase and drops the well-formed third line, so that
  \<^const>\<open>session_get_next_phase\<close> finds no open phase; \<^const>\<open>parse_phases\<close> of the
  orchestrator keeps both phases, and \<^const>\<open>get_current_phase\<close> returns the second.
\<close>

theorem parse_session_drops_later_phases:
  "phases (parse_session broken_list_doc)
     = [\<lparr>number = 1, complete = True, agent = ''a'', description = ''x''\<rparr>]
   \<and> parse_phases broken_list_doc
     = [\<lparr>number = 1, complete = True, agent = ''a'', description = ''x''\<rparr>,
        \<lparr>number = 2, complete = False, agent = ''b'', description = ''y''\<rparr>]
   \<and> session_get_next_phase (Some broken_list_doc) = Inr None
   \<and> get_current_phase (Some broken_list_doc)
     = Some \<lparr>number = 2, complete = False, agent = ''b'', description = ''y''\<rparr>"
  by (simp add: parse_broken_list_doc parse_phases_broken_list_doc session_get_next_phase_def
      get_next_phase_def get_current_phase_def)


section \<open>The audit with the fix\<close>

text \<open>
  Claim C7, evaluated: on a project whose registry has the Agent Registry section only,
  the audit with the fix writes the minimal registry and reports the registry valid, and
  its issue list still holds the two issues of the validation; the issue of a missing
  registry is removed.
\<close>

theorem audit_keeps_missing_section_issues:
  "map_sum id fst (audit_project broken_registry_project True) =
     Inr \<lparr>project_path = ''/work/app'', has_claude_dir = True, has_agents_dir = True,
           has_agents_md = True, agents_md_valid = True, discovered_agents = [],
           issues = [''Missing section: Ownership Matrix'', ''Missing section: Routing Table''],
           actions_taken = [''Created minimal AGENTS.md template'']\<rparr>
   \<and> map_sum id fst (audit_project no_registry_project True) =
     Inr \<lparr>project_path = ''/work/app'', has_claude_dir = True, has_agents_dir = True,
           has_agents_md = True, agents_md_valid = True, discovered_agents = [],
           issues = [],
           actions_taken = [''Created minimal AGENTS.md template'']\<rparr>"
proof -
  have a: "audit_checks broken_registry_project =
     Inr \<lparr>project_path = ''/work/app'', has_claude_dir = True, has_agents_dir = True,
           has_agents_md = True, agents_md_valid = False, discovered_agents = [],
           issues = [''Missing section: Ownership Matrix'', ''Missing section: Routing Table''],
           actions_taken = []\<rparr>"
    by (simp add: audit_checks_def broken_registry_project_def agents_files_def
        validate_registry_only)
  have b: "audit_checks no_registry_project =
     Inr \<lparr>project_path = ''/work/app'', has_claude_dir = True, has_agents_dir = True,
           has_agents_md = False, agents_md_valid = False, discovered_agents = [],
           issues = [''AGENTS.md not found''],
           actions_taken = []\<rparr>"
    by (simp add: audit_checks_def no_registry_project_def agents_files_def)
  have c: "tasks_dir broken_registry_project" "tasks_dir no_registry_project"
    by (simp_all add: broken_registry_project_def no_registry_project_def)
  show ?thesis
    by (simp add: audit_project_def a b c create_claude_dir_def create_agents_dir_def
        create_tasks_dir_def create_or_fix_registry_def registry_action_def)
qed

section \<open>The round trip of a session\<close>

lemma contains_prefix_mono: "prefix a b \<Longrightarrow> contains b x \<Longrightarrow> contains a x"
proof -
  assume "prefix a b" "contains b x"
  then obtain z p q where "b = a @ z" "x = p @ b @ q"
    by (auto simp: contains_sublist sublist_def prefix_def)
  then have "x = p @ a @ (z @ q)" by simp
  then show ?thesis unfolding contains_sublist sublist_def by blast
qed

lemma suffix_prefix_contains: "suffix t x \<Longrightarrow> prefix n t \<Longrightarrow> contains n x"
proof -
  assume "suffix t x" "prefix n t"
  then obtain p q where "x = p @ t" "t = n @ q" by (auto simp: prefix_def suffix_def)
  then have "x = p @ n @ q" by simp
  then show ?thesis unfolding contains_sublist sublist_def by blast
qed

lemma prefix_straddle:
  assumes "t \<noteq> []" "c \<notin> set (tl n)" "prefix n (t @ c # r)"
  shows "prefix n t"
proof -
  from assms(3) have "prefix n t \<or> (\<exists>us. n = t @ us \<and> prefix us (c # r))"
    by (simp only: prefix_append)
  then show ?thesis
  proof
    assume "prefix n t"
    then show ?thesis .
  next
    assume "\<exists>us. n = t @ us \<and> prefix us (c # r)"
    then obtain us where n: "n = t @ us" and us: "prefix us (c # r)" by blast
    show ?thesis
    proof (cases us)
      case Nil
      with n show ?thesis by simp
    next
      case (Cons a us')
      with us have "a = c" by simp
      obtain b t' where "t = b # t'" using assms(1) by (cases t) auto
      with n Cons \<open>a = c\<close> have "c \<in> set (tl n)" by simp
      with assms(2) show ?thesis by simp
    qed
  qed
qed

lemma no_prefix_in_field:
  "\<not> contains n x \<Longrightarrow> c \<notin> set (tl n) \<Longrightarrow> t \<noteq> [] \<Longrightarrow> suffix t x
     \<Longrightarrow> \<not> prefix n (t @ c # r)"
proof
  assume a: "\<not> contains n x" "c \<notin> set (tl n)" "t \<noteq> []" "suffix t x"
    and p: "prefix n (t @ c # r)"
  from a(3) a(2) p have "prefix n t" by (rule prefix_straddle)
  with a(4) have "contains n x" by (rule suffix_prefix_contains)
  with a(1) show False by simp
qed

lemma re_search_hit: "m s = Some r \<Longrightarrow> re_search m s = Some r"
  by (cases s) simp_all

lemma re_search_skip:
  "(\<And>t. t \<noteq> [] \<Longrightarrow> suffix t pre \<Longrightarrow> m (t @ rest) = None)
     \<Longrightarrow> re_search m (pre @ rest) = re_search m rest"
proof (induction pre)
  case Nil
  then show ?case by simp
next
  case (Cons c pre)
  have "m ((c # pre) @ rest) = None" by (rule Cons.prems) auto
  moreover have "re_search m (pre @ rest) = re_search m rest"
  proof (rule Cons.IH)
    fix t assume "t \<noteq> []" "suffix t pre"
    then show "m (t @ rest) = None" by (intro Cons.prems) (auto simp: suffix_Cons)
  qed
  ultimately show ?case by simp
qed

text \<open>A pattern that starts with a literal.\<close>

lemma re_search_skip_text:
  assumes "\<And>s. \<not> prefix n s \<Longrightarrow> m s = None"
    and "\<not> contains n x" "c \<notin> set (tl n)"
  shows "re_search m (x @ c # r) = re_search m (c # r)"
proof (rule re_search_skip)
  fix t assume "t \<noteq> []" "suffix t x"
  with assms(2,3) have "\<not> prefix n (t @ c # r)" by (intro no_prefix_in_field)
  then show "m (t @ c # r) = None" by (rule assms(1))
qed

lemma re_search_skip_chars:
  assumes "\<And>s. \<not> prefix n s \<Longrightarrow> m s = None"
    and "n \<noteq> []" "hd n \<notin> set x"
  shows "re_search m (x @ r) = re_search m r"
proof (rule re_search_skip)
  fix t assume t: "t \<noteq> []" "suffix t x"
  then have "hd t \<in> set t" "set t \<subseteq> set x" by (simp_all add: set_mono_suffix)
  then have "hd t \<in> set x" by blast
  with assms(3) have "hd t \<noteq> hd n" by auto
  then have "\<not> prefix n (t @ r)" using t(1) assms(2) by (cases n; cases t) auto
  then show "m (t @ r) = None" by (rule assms(1))
qed

lemma re_search_skip_char:
  assumes "\<And>s. \<not> prefix n s \<Longrightarrow> m s = None" and "\<not> prefix n (c # r)"
  shows "re_search m (c # r) = re_search m r"
  using assms by simp

end
